theory Spec2Isabelle
  imports Complex_Main "HOL-Library.AList"
begin

section \<open>Signaling server (src/server/mod.ts): data model\<close>

text \<open>
  The server keeps four maps (rooms, users, socketToUser, userToSocket), message
  statistics, the latency samples and the per-room ICE batching queue. Socket.IO is outside
  the repository: what a handler asks of it (emit to one socket, emit to a room except the
  sender, join or leave a Socket.IO room) is recorded as a list of emissions that the
  handler returns next to the new state. JavaScript numbers are modelled as \<open>int\<close>
  (counters, clock readings in milliseconds) and \<open>real\<close> (the average latency).
\<close>

datatype ArchitectureMode = Mesh | Sfu | Auto

record RoomInfo =
  room_roomId :: string
  room_users :: "string list"
  room_createdAt :: int

record UserInfo =
  user_userId :: string
  user_roomId :: "string option"
  user_connected :: bool
  user_joinedAt :: "int option"

text \<open>
  A signaling message. The TypeScript type makes \<open>type\<close> mandatory, but the object
  comes from the wire, so a missing field is \<open>None\<close>. \<open>msg_sdp\<close> is \<open>message.sdp?.sdp\<close>
  and \<open>msg_candidate\<close> is \<open>message.candidate?.candidate\<close>.
\<close>

record SignalingMessage =
  msg_type :: "string option"
  msg_from :: "string option"
  msg_to :: "string option"
  msg_roomId :: "string option"
  msg_sdp :: "string option"
  msg_candidate :: "string option"
  msg_error :: "string option"
  msg_architectureMode :: "ArchitectureMode option"

datatype payload =
    UserJoined string string
  | UserLeft string string
  | RoomJoined string string "string list"
  | Signaling SignalingMessage
  | ArchitectureModeChanged "ArchitectureMode option" string

text \<open>
  \<open>Emit sid p\<close>: \<open>socket.emit\<close> on the socket \<open>sid\<close>;
  \<open>ToRoom sid rid p\<close>: \<open>socket.to(rid).emit\<close>, every socket of the room but \<open>sid\<close>;
  \<open>SocketJoin\<close>, \<open>SocketLeave\<close>: \<open>socket.join(rid)\<close>, \<open>socket.leave(rid)\<close>.
\<close>

datatype emission =
    Emit string payload
  | ToRoom string string payload
  | SocketJoin string string
  | SocketLeave string string

record ServerStats =
  messagesReceived :: int
  messagesSent :: int
  messagesDelayed :: int
  averageLatency :: real
  lastMessageTime :: int

record SignalingServer =
  rooms :: "string \<rightharpoonup> RoomInfo"
  users :: "string \<rightharpoonup> UserInfo"
  socketToUser :: "string \<rightharpoonup> string"
  userToSocket :: "string \<rightharpoonup> string"
  stats :: ServerStats
  messageLatencies :: "int list"
  messageQueue :: "string \<rightharpoonup> SignalingMessage list"
  messageQueueTimers :: "string \<rightharpoonup> nat"
  timerSeq :: nat

datatype error = TypeError

definition new_server :: SignalingServer where
  "new_server =
     \<lparr>rooms = Map.empty, users = Map.empty, socketToUser = Map.empty,
      userToSocket = Map.empty,
      stats = \<lparr>messagesReceived = 0, messagesSent = 0, messagesDelayed = 0,
               averageLatency = 0, lastMessageTime = 0\<rparr>,
      messageLatencies = [], messageQueue = Map.empty,
      messageQueueTimers = Map.empty, timerSeq = 0\<rparr>"

text \<open>JavaScript truthiness of an optional string: \<open>undefined\<close> and \<open>""\<close> are falsy.\<close>

fun truthy :: "string option \<Rightarrow> bool" where
  "truthy None = False"
| "truthy (Some s) = (s \<noteq> [])"

subsection \<open>handleJoinRoom, handleLeaveRoom, handleDisconnect\<close>

text \<open>
  \<open>handleJoinRoom socket roomId userId\<close>; \<open>now\<close> is the reading of \<open>Date.now()\<close>
  (the handler reads the clock for \<open>joinedAt\<close> and for \<open>createdAt\<close>; one reading
  stands for both).
\<close>

text \<open>\<open>userId || socket.id\<close>: the socket id stands in for a missing or empty user id.\<close>

definition effectiveUserId :: "string \<Rightarrow> string option \<Rightarrow> string" where
  "effectiveUserId sid uid = (case uid of None \<Rightarrow> sid | Some u \<Rightarrow> if u \<noteq> [] then u else sid)"

definition handleJoinRoom ::
  "string \<Rightarrow> string \<Rightarrow> string option \<Rightarrow> int \<Rightarrow> SignalingServer
     \<Rightarrow> SignalingServer \<times> emission list" where
  "handleJoinRoom sid rid uid now s =
     (let actualUserId = effectiveUserId sid uid;
          userInfo = \<lparr>user_userId = actualUserId, user_roomId = Some rid,
                      user_connected = True, user_joinedAt = Some now\<rparr>;
          room = (case rooms s rid of
                    None \<Rightarrow> \<lparr>room_roomId = rid, room_users = [], room_createdAt = now\<rparr>
                  | Some r \<Rightarrow> r);
          room' = (if actualUserId \<in> set (room_users room) then room
                   else room\<lparr>room_users := room_users room @ [actualUserId]\<rparr>)
      in (s\<lparr>users := (users s)(actualUserId \<mapsto> userInfo),
            socketToUser := (socketToUser s)(sid \<mapsto> actualUserId),
            userToSocket := (userToSocket s)(actualUserId \<mapsto> sid),
            rooms := (rooms s)(rid \<mapsto> room')\<rparr>,
          [SocketJoin sid rid,
           ToRoom sid rid (UserJoined actualUserId rid),
           Emit sid (RoomJoined rid actualUserId
                       (filter (\<lambda>i. i \<noteq> actualUserId) (room_users room')))]))"

definition handleLeaveRoom ::
  "string \<Rightarrow> SignalingServer \<Rightarrow> SignalingServer \<times> emission list" where
  "handleLeaveRoom sid s =
     (case socketToUser s sid of
        None \<Rightarrow> (s, [])
      | Some userId \<Rightarrow>
          if userId = [] then (s, [])
          else
            (case users s userId of
               None \<Rightarrow> (s, [])
             | Some userInfo \<Rightarrow>
                 (case user_roomId userInfo of
                    None \<Rightarrow> (s, [])
                  | Some rid \<Rightarrow>
                      if rid = [] then (s, [])
                      else
                        (let (rooms', out) =
                               (case rooms s rid of
                                  None \<Rightarrow> (rooms s, [])
                                | Some room \<Rightarrow>
                                    (let us = filter (\<lambda>i. i \<noteq> userId) (room_users room)
                                     in if us = [] then ((rooms s)(rid := None), [])
                                        else ((rooms s)(rid \<mapsto> room\<lparr>room_users := us\<rparr>),
                                              [ToRoom sid rid (UserLeft userId rid)])))
                         in (s\<lparr>rooms := rooms',
                               users := (users s)(userId \<mapsto>
                                  userInfo\<lparr>user_roomId := None, user_connected := False\<rparr>),
                               userToSocket := (userToSocket s)(userId := None)\<rparr>,
                             out @ [SocketLeave sid rid])))))"

definition handleDisconnect ::
  "string \<Rightarrow> SignalingServer \<Rightarrow> SignalingServer \<times> emission list" where
  "handleDisconnect sid s =
     (case socketToUser s sid of
        None \<Rightarrow> (s, [])
      | Some userId \<Rightarrow>
          if userId = [] then (s, [])
          else
            (let (s1, out) = handleLeaveRoom sid s
             in (s1\<lparr>socketToUser := (socketToUser s1)(sid := None),
                    userToSocket := (userToSocket s1)(userId := None),
                    users := (users s1)(userId := None)\<rparr>,
                 out)))"

subsection \<open>handleSignaling and what it calls\<close>

definition startsWith :: "string \<Rightarrow> string \<Rightarrow> bool" where
  "startsWith s p = (take (length p) s = p)"

text \<open>
  The reply to a sender that is in no room: \<open>{type: "error", error: ...}\<close>. The source's
  text is seven Chinese characters ("user has not joined a room"), written here by their
  code points.
\<close>

definition user_not_in_room :: SignalingMessage where
  "user_not_in_room =
     \<lparr>msg_type = Some ''error'', msg_from = None, msg_to = None, msg_roomId = None,
      msg_sdp = None, msg_candidate = None,
      msg_error = Some ''U+7528 U+6237 U+672A U+52A0 U+5165 U+623F U+95F4'',
      msg_architectureMode = None\<rparr>"

text \<open>
  \<open>live\<close> stands for \<open>this.io.of("/").getSockets()\<close>: whether Socket.IO still holds a
  socket with that id.
\<close>

definition findSocketByUserId ::
  "(string \<Rightarrow> bool) \<Rightarrow> string \<Rightarrow> SignalingServer \<Rightarrow> string option" where
  "findSocketByUserId live uid s =
     (case userToSocket s uid of
        None \<Rightarrow> None
      | Some socketId \<Rightarrow>
          if socketId = [] then None
          else if live socketId then Some socketId else None)"

definition sendMessage ::
  "(string \<Rightarrow> bool) \<Rightarrow> SignalingMessage \<Rightarrow> string \<Rightarrow> string \<Rightarrow> SignalingServer
     \<Rightarrow> SignalingServer \<times> emission list" where
  "sendMessage live message sid rid s =
     (let broadcast =
            (case rooms s rid of
               None \<Rightarrow> s
             | Some room \<Rightarrow>
                 s\<lparr>stats := (stats s)\<lparr>messagesSent :=
                      messagesSent (stats s) + (int (length (room_users room)) - 1)\<rparr>\<rparr>,
             [ToRoom sid rid (Signaling message)])
      in case msg_to message of
           None \<Rightarrow> broadcast
         | Some target \<Rightarrow>
             if target = [] then broadcast
             else
               (case findSocketByUserId live target s of
                  None \<Rightarrow> (s, [])
                | Some targetSocket \<Rightarrow>
                    (s\<lparr>stats := (stats s)\<lparr>messagesSent := messagesSent (stats s) + 1\<rparr>\<rparr>,
                     [Emit targetSocket (Signaling message)])))"

text \<open>
  \<open>queueMessage\<close>: the candidate goes to the room's queue; a flush timer is armed when the
  room has none (\<open>timerSeq\<close> numbers the timers that \<open>setTimeout\<close> hands out).
\<close>

definition queueMessage :: "string \<Rightarrow> SignalingMessage \<Rightarrow> SignalingServer \<Rightarrow> SignalingServer" where
  "queueMessage rid message s =
     (let queued = (case messageQueue s rid of None \<Rightarrow> [] | Some ms \<Rightarrow> ms) @ [message];
          s1 = s\<lparr>messageQueue := (messageQueue s)(rid \<mapsto> queued)\<rparr>
      in case messageQueueTimers s1 rid of
           Some timer \<Rightarrow> s1
         | None \<Rightarrow>
             s1\<lparr>messageQueueTimers := (messageQueueTimers s1)(rid \<mapsto> Suc (timerSeq s1)),
                timerSeq := Suc (timerSeq s1)\<rparr>)"

definition recordLatency :: "int \<Rightarrow> SignalingServer \<Rightarrow> SignalingServer" where
  "recordLatency latency s =
     (let pushed = messageLatencies s @ [latency];
          kept = (if length pushed > 1000 then tl pushed else pushed);
          average = real_of_int (sum_list kept) / real (length kept)
      in s\<lparr>messageLatencies := kept,
            stats := (stats s)\<lparr>
              averageLatency := average,
              messagesDelayed :=
                (if latency > 100 then messagesDelayed (stats s) + 1
                 else messagesDelayed (stats s))\<rparr>\<rparr>)"

text \<open>
  \<open>handleSignaling socket message\<close>. \<open>startTime\<close> and \<open>endTime\<close> are the two readings
  of \<open>Date.now()\<close>. A message without a \<open>type\<close> makes \<open>message.type.startsWith\<close> throw
  once the sender has passed the room check: that is the \<open>Inl\<close> result.
\<close>

definition handleSignaling ::
  "(string \<Rightarrow> bool) \<Rightarrow> string \<Rightarrow> SignalingMessage \<Rightarrow> int \<Rightarrow> int \<Rightarrow> SignalingServer
     \<Rightarrow> error + SignalingServer \<times> emission list" where
  "handleSignaling live sid message startTime endTime s =
     (let reject = Inr (s, [Emit sid (Signaling user_not_in_room)])
      in case socketToUser s sid of
           None \<Rightarrow> reject
         | Some userId \<Rightarrow>
             if userId = [] then reject
             else
               (case users s userId of
                  None \<Rightarrow> reject
                | Some userInfo \<Rightarrow>
                    (case user_roomId userInfo of
                       None \<Rightarrow> reject
                     | Some rid \<Rightarrow>
                         if rid = [] then reject
                         else
                           (let stamped = message\<lparr>msg_from := Some userId,
                                                  msg_roomId := Some rid\<rparr>
                            in case msg_type message of
                                 None \<Rightarrow> Inl TypeError
                               | Some ty \<Rightarrow>
                                   if ty = ''architecture-mode'' then
                                     Inr (s, [ToRoom sid rid
                                       (ArchitectureModeChanged (msg_architectureMode message) rid)])
                                   else if startsWith ty ''sfu-'' then
                                     Inr (s, [ToRoom sid rid (Signaling stamped)])
                                   else
                                     (let s1 = s\<lparr>stats := (stats s)\<lparr>
                                                 messagesReceived := messagesReceived (stats s) + 1,
                                                 lastMessageTime := startTime\<rparr>\<rparr>;
                                          (s2, out) =
                                            (if ty = ''ice-candidate''
                                             then (queueMessage rid stamped s1, [])
                                             else sendMessage live stamped sid rid s1)
                                      in Inr (recordLatency (endTime - startTime) s2, out))))))"

text \<open>\<open>getStats\<close>: the statistics record, spread, with the sizes of the two maps.\<close>

record ServerReport = ServerStats +
  activeRooms :: nat
  activeUsers :: nat

definition getStats :: "SignalingServer \<Rightarrow> ServerReport" where
  "getStats s =
     \<lparr>messagesReceived = messagesReceived (stats s),
      messagesSent = messagesSent (stats s),
      messagesDelayed = messagesDelayed (stats s),
      averageLatency = averageLatency (stats s),
      lastMessageTime = lastMessageTime (stats s),
      activeRooms = card (dom (rooms s)),
      activeUsers = card (dom (users s))\<rparr>"

text \<open>
  The sender test of \<open>handleSignaling\<close>: the socket is bound to a user, the user has a
  record, and the record names a room.
\<close>

definition registered :: "SignalingServer \<Rightarrow> string \<Rightarrow> bool" where
  "registered s sid =
     (case socketToUser s sid of
        None \<Rightarrow> False
      | Some userId \<Rightarrow>
          userId \<noteq> [] \<and>
          (case users s userId of
             None \<Rightarrow> False
           | Some userInfo \<Rightarrow> truthy (user_roomId userInfo)))"

definition getRoom :: "SignalingServer \<Rightarrow> string \<Rightarrow> RoomInfo option" where
  "getRoom s rid = rooms s rid"

definition getUser :: "SignalingServer \<Rightarrow> string \<Rightarrow> UserInfo option" where
  "getUser s uid = users s uid"

definition getRoomUsers :: "SignalingServer \<Rightarrow> string \<Rightarrow> string list" where
  "getRoomUsers s rid = (case rooms s rid of None \<Rightarrow> [] | Some room \<Rightarrow> room_users room)"

text \<open>The transport events that change the registry, and the server run on a list of them.\<close>

datatype event =
    JoinRoom string string "string option" int
  | LeaveRoom string
  | Disconnect string

fun handle :: "event \<Rightarrow> SignalingServer \<Rightarrow> SignalingServer" where
  "handle (JoinRoom sid rid uid now) s = fst (handleJoinRoom sid rid uid now s)"
| "handle (LeaveRoom sid) s = fst (handleLeaveRoom sid s)"
| "handle (Disconnect sid) s = fst (handleDisconnect sid s)"

fun run :: "event list \<Rightarrow> SignalingServer \<Rightarrow> SignalingServer" where
  "run [] s = s"
| "run (e # es) s = run es (handle e s)"

subsection \<open>Who is in a room, by the events alone\<close>

text \<open>
  "The users who joined a room and have not since left or disconnected", read off the
  events: a join on a socket puts the joining user into the room, and stays in force until
  that socket leaves or disconnects. \<open>in_force\<close> lists the joins in force as
  (socket, user, room); a leave or a disconnect on a socket ends every join made on it,
  whatever user id it was made under.
\<close>

fun in_force_step ::
  "event \<Rightarrow> (string \<times> string \<times> string) list \<Rightarrow> (string \<times> string \<times> string) list" where
  "in_force_step (JoinRoom sid rid uid now) js = (sid, effectiveUserId sid uid, rid) # js"
| "in_force_step (LeaveRoom sid) js = filter (\<lambda>j. fst j \<noteq> sid) js"
| "in_force_step (Disconnect sid) js = filter (\<lambda>j. fst j \<noteq> sid) js"

fun in_force ::
  "event list \<Rightarrow> (string \<times> string \<times> string) list \<Rightarrow> (string \<times> string \<times> string) list" where
  "in_force [] js = js"
| "in_force (e # es) js = in_force es (in_force_step e js)"

definition joined_not_left :: "event list \<Rightarrow> string \<Rightarrow> string set" where
  "joined_not_left evs rid =
     set (map (\<lambda>j. fst (snd j)) (filter (\<lambda>j. snd (snd j) = rid) (in_force evs [])))"

text \<open>
  Two conditions on a sequence of events. \<open>one_id_per_socket\<close>: every join is made
  under a non-empty user id, a socket keeps the user id of its first join until it
  disconnects, and no user id is in use by two sockets that have not disconnected
  (\<open>bound\<close> lists the sockets that have joined and not disconnected, each with its user
  id). \<open>one_room_per_user\<close>: every join names a non-empty room and comes while no join
  of that user to another room is in force.
\<close>

fun bound_step :: "event \<Rightarrow> (string \<times> string) list \<Rightarrow> (string \<times> string) list" where
  "bound_step (JoinRoom sid rid uid now) bs = (sid, effectiveUserId sid uid) # bs"
| "bound_step (LeaveRoom sid) bs = bs"
| "bound_step (Disconnect sid) bs = filter (\<lambda>b. fst b \<noteq> sid) bs"


fun same_identity :: "event \<Rightarrow> (string \<times> string) list \<Rightarrow> bool" where
  "same_identity (JoinRoom sid rid uid now) bs =
     (effectiveUserId sid uid \<noteq> [] \<and>
      list_all (\<lambda>b. (fst b = sid) = (snd b = effectiveUserId sid uid)) bs)"
| "same_identity (LeaveRoom sid) bs = True"
| "same_identity (Disconnect sid) bs = True"

fun one_id_per_socket :: "event list \<Rightarrow> (string \<times> string) list \<Rightarrow> bool" where
  "one_id_per_socket [] bs = True"
| "one_id_per_socket (e # es) bs = (same_identity e bs \<and> one_id_per_socket es (bound_step e bs))"

fun in_no_other_room :: "event \<Rightarrow> (string \<times> string \<times> string) list \<Rightarrow> bool" where
  "in_no_other_room (JoinRoom sid rid uid now) js =
     (rid \<noteq> [] \<and>
      list_all (\<lambda>j. fst (snd j) \<noteq> effectiveUserId sid uid \<or> snd (snd j) = rid) js)"
| "in_no_other_room (LeaveRoom sid) js = True"
| "in_no_other_room (Disconnect sid) js = True"

fun one_room_per_user :: "event list \<Rightarrow> (string \<times> string \<times> string) list \<Rightarrow> bool" where
  "one_room_per_user [] js = True"
| "one_room_per_user (e # es) js =
     (in_no_other_room e js \<and> one_room_per_user es (in_force_step e js))"

subsection \<open>The rooms of a user id, as the server's handlers count them\<close>

text \<open>
  A second bookkeeping, by user id: a join puts the user id into the room; a leave or a
  disconnect on a socket takes the user id that socket joined under last out of every
  room; a disconnect also forgets the socket. \<open>member_of\<close> lists the (user, room) pairs.
  It serves to say when a join comes while its user id is in no other room
  (\<open>one_room_at_a_time\<close>: every join names a non-empty room, is made under a non-empty
  user id, and finds that user id in no other room).
\<close>

record Membership =
  sock_user :: "string \<rightharpoonup> string"
  member_of :: "(string \<times> string) list"

definition no_members :: Membership where
  "no_members = \<lparr>sock_user = Map.empty, member_of = []\<rparr>"

fun track :: "event \<Rightarrow> Membership \<Rightarrow> Membership" where
  "track (JoinRoom sid rid uid now) m =
     m\<lparr>sock_user := (sock_user m)(sid \<mapsto> effectiveUserId sid uid),
       member_of := (effectiveUserId sid uid, rid) # member_of m\<rparr>"
| "track (LeaveRoom sid) m =
     (case sock_user m sid of
        None \<Rightarrow> m
      | Some u \<Rightarrow> m\<lparr>member_of := filter (\<lambda>p. fst p \<noteq> u) (member_of m)\<rparr>)"
| "track (Disconnect sid) m =
     (case sock_user m sid of
        None \<Rightarrow> m
      | Some u \<Rightarrow> m\<lparr>sock_user := (sock_user m)(sid := None),
                     member_of := filter (\<lambda>p. fst p \<noteq> u) (member_of m)\<rparr>)"

fun tracked :: "event list \<Rightarrow> Membership \<Rightarrow> Membership" where
  "tracked [] m = m"
| "tracked (e # es) m = tracked es (track e m)"

fun join_allowed :: "event \<Rightarrow> Membership \<Rightarrow> bool" where
  "join_allowed (JoinRoom sid rid uid now) m =
     (rid \<noteq> [] \<and> effectiveUserId sid uid \<noteq> [] \<and>
      list_all (\<lambda>p. fst p \<noteq> effectiveUserId sid uid \<or> snd p = rid) (member_of m))"
| "join_allowed (LeaveRoom sid) m = True"
| "join_allowed (Disconnect sid) m = True"

fun one_room_at_a_time :: "event list \<Rightarrow> Membership \<Rightarrow> bool" where
  "one_room_at_a_time [] m = True"
| "one_room_at_a_time (e # es) m = (join_allowed e m \<and> one_room_at_a_time es (track e m))"


section \<open>Client (src/client/client.ts)\<close>

subsection \<open>State of RTCClient\<close>

text \<open>
  The options as the caller gives them: a key is absent, present with the value
  \<open>undefined\<close>, or present with a value. The constructor stores
  \<open>{architectureMode: options.architectureMode || "auto", meshToSFUThreshold:
  options.meshToSFUThreshold || 10, ...options}\<close>: the fallback stands only where the key
  is absent, since the spread writes every present key over it, a given 0 or
  \<open>undefined\<close> included. In the stored options \<open>None\<close> is \<open>undefined\<close>. Native objects
  (peer connections, media streams) are handles.
\<close>

datatype 'a option_key = Absent | Undefined | Given 'a

record RTCClientOptions =
  architectureMode :: "ArchitectureMode option_key"
  meshToSFUThreshold :: "int option_key"
  sfuOptions :: "string option_key"

record ClientOptions =
  opt_architectureMode :: "ArchitectureMode option"
  opt_meshToSFUThreshold :: "int option"
  opt_sfuOptions :: "string option"

datatype Quality = Low | Medium | High

record NetworkStats =
  bandwidth :: real
  packetLoss :: real
  rtt :: real
  lastUpdate :: int

record ClientStats =
  c_messagesSent :: int
  c_messagesReceived :: int
  c_errors :: int
  c_reconnections :: int

record RTCClient =
  options :: ClientOptions
  sfuAdapter :: "string option"
  currentArchitectureMode :: ArchitectureMode
  roomUserCount :: int
  roomId :: "string option"
  userId :: "string option"
  peerConnection :: "nat option"
  peerConnections :: "(string \<times> nat) list"
  remoteStreams :: "string list"
  localStream :: "nat option"
  multiPeerMode :: bool
  processedSignalingIds :: "string list"
  client_stats :: ClientStats
  currentQuality :: Quality
  networkStats :: NetworkStats

text \<open>What a client handler asks of its collaborators, in program order.\<close>

datatype client_effect =
    PcClose nat
  | EmitSignaling SignalingMessage
  | SfuDisconnect
  | SfuConnect
  | SfuPublish nat
  | InitializePeerConnection
  | ApplyQualitySettings Quality

definition new_client :: "RTCClientOptions \<Rightarrow> RTCClient" where
  "new_client given =
     (let stored =
            \<lparr>opt_architectureMode =
               (case architectureMode given of
                  Absent \<Rightarrow> Some Auto | Undefined \<Rightarrow> None | Given m \<Rightarrow> Some m),
             opt_meshToSFUThreshold =
               (case meshToSFUThreshold given of
                  Absent \<Rightarrow> Some 10 | Undefined \<Rightarrow> None | Given n \<Rightarrow> Some n),
             opt_sfuOptions =
               (case sfuOptions given of
                  Absent \<Rightarrow> None | Undefined \<Rightarrow> None | Given url \<Rightarrow> Some url)\<rparr>;
          mode = (case opt_architectureMode stored of None \<Rightarrow> Auto | Some m \<Rightarrow> m)
      in \<lparr>options = stored,
          sfuAdapter =
            (if opt_architectureMode stored = Some Sfu \<or> opt_architectureMode stored = Some Auto
             then opt_sfuOptions stored else None),
          currentArchitectureMode = (if mode = Auto then Mesh else mode),
          roomUserCount = 0, roomId = None, userId = None, peerConnection = None,
          peerConnections = [], remoteStreams = [], localStream = None,
          multiPeerMode = False, processedSignalingIds = [],
          client_stats = \<lparr>c_messagesSent = 0, c_messagesReceived = 0, c_errors = 0,
                          c_reconnections = 0\<rparr>,
          currentQuality = High,
          networkStats = \<lparr>bandwidth = 0, packetLoss = 0, rtt = 0, lastUpdate = 0\<rparr>\<rparr>)"

subsection \<open>Topology: checkAndSwitchArchitecture, switchArchitecture, the user-joined count\<close>

definition architecture_mode_message :: "ArchitectureMode \<Rightarrow> string option \<Rightarrow> SignalingMessage" where
  "architecture_mode_message mode rid =
     \<lparr>msg_type = Some ''architecture-mode'', msg_from = None, msg_to = None,
      msg_roomId = rid, msg_sdp = None, msg_candidate = None, msg_error = None,
      msg_architectureMode = Some mode\<rparr>"

text \<open>
  \<open>switchArchitecture mode\<close>. The function is asynchronous; the mode is written before
  its first \<open>await\<close>, and the effects are listed in program order. \<open>acquired\<close> is the
  handle \<open>connectionPool.acquire\<close> gives \<open>initializePeerConnection\<close> on the way back to
  mesh (\<open>None\<close> when it throws); \<open>InitializePeerConnection\<close> stands for the rest of that
  function (handlers, tracks, quality monitoring).
\<close>

definition switchArchitecture ::
  "ArchitectureMode \<Rightarrow> nat option \<Rightarrow> RTCClient \<Rightarrow> RTCClient \<times> client_effect list" where
  "switchArchitecture mode acquired c =
     (if mode = currentArchitectureMode c then (c, [])
      else
        (let (c1, closing) =
               (if currentArchitectureMode c = Mesh then
                  (c\<lparr>peerConnections := [], remoteStreams := [], peerConnection := None\<rparr>,
                   map (\<lambda>p. PcClose (snd p)) (peerConnections c) @
                   (case peerConnection c of None \<Rightarrow> [] | Some pc \<Rightarrow> [PcClose pc]))
                else if currentArchitectureMode c = Sfu \<and> sfuAdapter c \<noteq> None then
                  (c, [SfuDisconnect])
                else (c, []));
             c2 = c1\<lparr>currentArchitectureMode := mode\<rparr>;
             notify = [EmitSignaling (architecture_mode_message mode (roomId c2))];
             (c3, opening) =
               (if mode = Sfu \<and> sfuAdapter c2 \<noteq> None \<and> truthy (roomId c2) then
                  (c2, SfuConnect #
                       (case localStream c2 of None \<Rightarrow> [] | Some st \<Rightarrow> [SfuPublish st]))
                else if mode = Mesh \<and> truthy (roomId c2) then
                  (c2\<lparr>peerConnection :=
                        (case acquired of None \<Rightarrow> peerConnection c2 | Some pc \<Rightarrow> Some pc)\<rparr>,
                   [InitializePeerConnection])
                else (c2, []))
         in (c3, closing @ notify @ opening)))"

text \<open>\<open>this.options.meshToSFUThreshold || 10\<close>: \<open>undefined\<close> and 0 are falsy.\<close>

definition threshold :: "RTCClient \<Rightarrow> int" where
  "threshold c =
     (case opt_meshToSFUThreshold (options c) of
        None \<Rightarrow> 10
      | Some n \<Rightarrow> if n = 0 then 10 else n)"

definition checkAndSwitchArchitecture ::
  "nat option \<Rightarrow> RTCClient \<Rightarrow> RTCClient \<times> client_effect list" where
  "checkAndSwitchArchitecture acquired c =
     (if opt_architectureMode (options c) \<noteq> Some Auto then (c, [])
      else
        (let shouldUseSFU = (roomUserCount c \<ge> threshold c)
         in if shouldUseSFU \<and> currentArchitectureMode c = Mesh then
              switchArchitecture Sfu acquired c
            else if \<not> shouldUseSFU \<and> currentArchitectureMode c = Sfu then
              switchArchitecture Mesh acquired c
            else (c, [])))"

text \<open>
  \<open>userJoinedCount\<close> is the listener of \<open>user-joined\<close> that keeps the room count
  (client.ts 293-299), the second of the two listeners registered for that event.
\<close>

definition userJoinedCount :: "nat option \<Rightarrow> RTCClient \<Rightarrow> RTCClient \<times> client_effect list" where
  "userJoinedCount acquired c =
     (let c1 = c\<lparr>roomUserCount := roomUserCount c + 1\<rparr>
      in if opt_architectureMode (options c1) = Some Auto
         then checkAndSwitchArchitecture acquired c1 else (c1, []))"

subsection \<open>Quality: adjustMediaQuality\<close>

text \<open>
  \<open>targetQuality\<close> is the value of the local variable of \<open>adjustMediaQuality\<close> after its
  three blocks (bandwidth, packet loss, round-trip time), each a reassignment.
\<close>

definition targetQuality :: "NetworkStats \<Rightarrow> Quality" where
  "targetQuality ns =
     (let q0 = High;
          q1 = (if bandwidth ns < 500000 then Low
                else if bandwidth ns < 2000000 then Medium else q0);
          q2 = (if packetLoss ns > 5 then Low
                else if packetLoss ns > 2 then (if q1 = High then Medium else Low)
                else q1);
          q3 = (if rtt ns > 300 then Low
                else if rtt ns > 150 then (if q2 = High then Medium else Low)
                else q2)
      in q3)"

definition adjustMediaQuality :: "RTCClient \<Rightarrow> RTCClient \<times> client_effect list" where
  "adjustMediaQuality c =
     (case localStream c of
        None \<Rightarrow> (c, [])
      | Some st \<Rightarrow>
          (let target = targetQuality (networkStats c)
           in if target \<noteq> currentQuality c
              then (c\<lparr>currentQuality := target\<rparr>, [ApplyQualitySettings target])
              else (c, [])))"

text \<open>
  The tier as the specification words it: round-trip time over 300 is low, over 150 one
  step down; loss over 5 is low, over 2 one step down; bandwidth under 500000 is low,
  under 2000000 medium; otherwise high.
\<close>

fun one_step_down :: "Quality \<Rightarrow> Quality" where
  "one_step_down High = Medium"
| "one_step_down Medium = Low"
| "one_step_down Low = Low"

definition bandwidth_tier :: "real \<Rightarrow> Quality" where
  "bandwidth_tier b = (if b < 500000 then Low else if b < 2000000 then Medium else High)"

definition spec_tier :: "NetworkStats \<Rightarrow> Quality" where
  "spec_tier ns =
     (if rtt ns > 300 then Low
      else (if rtt ns > 150 then one_step_down else id)
             (if packetLoss ns > 5 then Low
              else (if packetLoss ns > 2 then one_step_down else id)
                     (bandwidth_tier (bandwidth ns))))"

subsection \<open>Duplicate suppression: getMessageId, handleSignaling\<close>

definition getMessageId :: "SignalingMessage \<Rightarrow> string" where
  "getMessageId message =
     (let sdpHash = (case msg_sdp message of None \<Rightarrow> []
                     | Some sd \<Rightarrow> if sd \<noteq> [] then take 50 sd else []);
          candidateHash = (case msg_candidate message of None \<Rightarrow> []
                           | Some cd \<Rightarrow> if cd \<noteq> [] then take 50 cd else [])
      in (case msg_type message of None \<Rightarrow> ''undefined'' | Some ty \<Rightarrow> ty) @ ''-'' @
         (case msg_from message of None \<Rightarrow> [] | Some f \<Rightarrow> f) @ ''-'' @
         sdpHash @ candidateHash)"

text \<open>
  The client's \<open>handleSignaling\<close>, up to the point where it hands the message to a peer
  connection. \<open>processedSignalingIds\<close> is a JavaScript \<open>Set\<close>; an id is added only when
  absent, so the list holds each id once and its length is the set's size.
\<close>

datatype dispatch =
    ToSfuAdapter
  | Failed
  | Duplicate
  | NoPeerConnection
  | ToPeer nat

definition client_handleSignaling :: "SignalingMessage \<Rightarrow> RTCClient \<Rightarrow> RTCClient \<times> dispatch" where
  "client_handleSignaling message c =
     (let viaSfu = (currentArchitectureMode c = Sfu \<and> sfuAdapter c \<noteq> None)
      in if viaSfu \<and> msg_type message = None then
           (c\<lparr>client_stats := (client_stats c)\<lparr>c_errors := c_errors (client_stats c) + 1\<rparr>\<rparr>,
            Failed)
         else if viaSfu \<and>
                 (case msg_type message of
                    None \<Rightarrow> False
                  | Some ty \<Rightarrow> startsWith ty ''sfu-'' \<or> ty = ''answer'' \<or> ty = ''ice-candidate'')
         then (c, ToSfuAdapter)
         else
           (let messageId = getMessageId message
            in if messageId \<in> set (processedSignalingIds c) then (c, Duplicate)
               else
                 (let added = processedSignalingIds c @ [messageId];
                      c1 = c\<lparr>processedSignalingIds := (if length added > 1000 then [] else added),
                              client_stats := (client_stats c)\<lparr>c_messagesReceived :=
                                 c_messagesReceived (client_stats c) + 1\<rparr>\<rparr>
                  in if multiPeerMode c1 \<and> truthy (msg_from message) then
                       (case map_of (peerConnections c1)
                               (case msg_from message of None \<Rightarrow> [] | Some f \<Rightarrow> f) of
                          None \<Rightarrow> (c1, NoPeerConnection)
                        | Some pc \<Rightarrow> (c1, ToPeer pc))
                     else
                       (case peerConnection c1 of
                          None \<Rightarrow> (c1, NoPeerConnection)
                        | Some pc \<Rightarrow> (c1, ToPeer pc)))))"

subsection \<open>RTCPeerConnectionPool\<close>

text \<open>
  A connection is a handle; \<open>constructed\<close> counts the objects the pool has constructed, so
  that \<open>acquire\<close> returns a handle no earlier call returned; \<open>timers\<close> numbers the timers
  of \<open>setTimeout\<close> from 1. The two \<open>Set\<close>/\<open>Map\<close> collections keyed by connection are
  lists in insertion order. A configuration is known by its key (\<open>getConfigKey\<close>), which
  the caller passes with it.
\<close>

record PoolStats =
  created :: int
  released :: int
  active :: int

record 'cfg RTCPeerConnectionPool =
  maxSize :: int
  activeConnections :: "nat list"
  configCache :: "(string \<times> 'cfg) list"
  pool_stats :: PoolStats
  pendingClose :: "(nat \<times> nat) list"
  closeDelay :: int
  constructed :: nat
  timers :: nat

datatype pool_error = NotAvailable

datatype pool_effect =
    Close nat
  | SetTimeout nat nat
  | ClearTimeout nat

definition new_pool :: "int option \<Rightarrow> int option \<Rightarrow> 'cfg RTCPeerConnectionPool" where
  "new_pool givenMaxSize givenCloseDelay =
     \<lparr>maxSize = (case givenMaxSize of None \<Rightarrow> 5 | Some n \<Rightarrow> if n = 0 then 5 else n),
      activeConnections = [],
      configCache = [],
      pool_stats = \<lparr>created = 0, released = 0, active = 0\<rparr>,
      pendingClose = [],
      closeDelay = (case givenCloseDelay of None \<Rightarrow> 1000 | Some n \<Rightarrow> if n = 0 then 1000 else n),
      constructed = 0, timers = 0\<rparr>"

text \<open>
  \<open>acquire config\<close>; \<open>hasRTC\<close> says whether \<open>globalThis.RTCPeerConnection\<close> exists. The
  cache is written before the constructor is looked up, so a failed call leaves the cache
  changed; that state is the \<open>Inl\<close> result.
\<close>

definition acquire ::
  "bool \<Rightarrow> string \<Rightarrow> 'cfg \<Rightarrow> 'cfg RTCPeerConnectionPool
     \<Rightarrow> (pool_error \<times> 'cfg RTCPeerConnectionPool) + (nat \<times> 'cfg RTCPeerConnectionPool)" where
  "acquire hasRTC configKey config p =
     (let cache =
            (case map_of (configCache p) configKey of
               Some cachedConfig \<Rightarrow> configCache p
             | None \<Rightarrow>
                 (let inserted = configCache p @ [(configKey, config)]
                  in if length inserted > 10 then
                       (case inserted of
                          [] \<Rightarrow> inserted
                        | (firstKey, v) # rest \<Rightarrow> if firstKey \<noteq> [] then rest else inserted)
                     else inserted));
          p1 = p\<lparr>configCache := cache\<rparr>
      in if \<not> hasRTC then Inl (NotAvailable, p1)
         else
           (let pc = constructed p1;
                conns = (if pc \<in> set (activeConnections p1) then activeConnections p1
                         else activeConnections p1 @ [pc])
            in Inr (pc,
                 p1\<lparr>constructed := Suc pc,
                    activeConnections := conns,
                    pool_stats := (pool_stats p1)\<lparr>created := created (pool_stats p1) + 1,
                                                 active := int (length conns)\<rparr>\<rparr>)))"

definition release ::
  "nat \<Rightarrow> 'cfg RTCPeerConnectionPool \<Rightarrow> 'cfg RTCPeerConnectionPool \<times> pool_effect list" where
  "release pc p =
     (if pc \<notin> set (activeConnections p) then (p, [])
      else
        (let conns = removeAll pc (activeConnections p);
             closeTimer = Suc (timers p)
         in (p\<lparr>activeConnections := conns,
               pool_stats := (pool_stats p)\<lparr>released := released (pool_stats p) + 1,
                                           active := int (length conns)\<rparr>,
               timers := closeTimer,
               pendingClose := AList.update pc closeTimer (pendingClose p)\<rparr>,
             [SetTimeout closeTimer pc])))"

text \<open>The body of the timer that \<open>release\<close> sets, run when the timer fires.\<close>

definition closeTimerFires ::
  "nat \<Rightarrow> 'cfg RTCPeerConnectionPool \<Rightarrow> 'cfg RTCPeerConnectionPool \<times> pool_effect list" where
  "closeTimerFires pc p = (p\<lparr>pendingClose := AList.delete pc (pendingClose p)\<rparr>, [Close pc])"

definition releaseImmediate ::
  "nat \<Rightarrow> 'cfg RTCPeerConnectionPool \<Rightarrow> 'cfg RTCPeerConnectionPool \<times> pool_effect list" where
  "releaseImmediate pc p =
     (let (pending, cancelled) =
            (case map_of (pendingClose p) pc of
               None \<Rightarrow> (pendingClose p, [])
             | Some timer \<Rightarrow>
                 if timer \<noteq> 0 then (AList.delete pc (pendingClose p), [ClearTimeout timer])
                 else (pendingClose p, []));
          conns = removeAll pc (activeConnections p)
      in (p\<lparr>pendingClose := pending,
            activeConnections := conns,
            pool_stats := (pool_stats p)\<lparr>released := released (pool_stats p) + 1,
                                        active := int (length conns)\<rparr>\<rparr>,
          cancelled @ [Close pc]))"

definition clear ::
  "'cfg RTCPeerConnectionPool \<Rightarrow> 'cfg RTCPeerConnectionPool \<times> pool_effect list" where
  "clear p =
     (p\<lparr>pendingClose := [], activeConnections := [], configCache := [],
        pool_stats := \<lparr>created = 0, released = 0, active = 0\<rparr>\<rparr>,
      concat (map (\<lambda>(pc, timer). [ClearTimeout timer, Close pc]) (pendingClose p)) @
      map Close (activeConnections p))"

record PoolReport = PoolStats +
  stat_pendingClose :: nat
  stat_configCacheSize :: nat

definition pool_getStats :: "'cfg RTCPeerConnectionPool \<Rightarrow> PoolReport" where
  "pool_getStats p =
     \<lparr>created = created (pool_stats p),
      released = released (pool_stats p),
      active = active (pool_stats p),
      stat_pendingClose = length (pendingClose p),
      stat_configCacheSize = length (configCache p)\<rparr>"


text \<open>
  The calls a client makes on its pool, the firing of a close timer, and the pool after a
  list of them; \<open>pool_inv\<close> is what every such pool satisfies.
\<close>

datatype 'cfg pool_call =
    Acquire bool string 'cfg
  | Release nat
  | ReleaseImmediate nat
  | CloseTimerFires nat
  | Clear

fun pool_step :: "'cfg pool_call \<Rightarrow> 'cfg RTCPeerConnectionPool \<Rightarrow> 'cfg RTCPeerConnectionPool" where
  "pool_step (Acquire hasRTC configKey config) p =
     (case acquire hasRTC configKey config p of Inl (e, p') \<Rightarrow> p' | Inr (pc, p') \<Rightarrow> p')"
| "pool_step (Release pc) p = fst (release pc p)"
| "pool_step (ReleaseImmediate pc) p = fst (releaseImmediate pc p)"
| "pool_step (CloseTimerFires pc) p = fst (closeTimerFires pc p)"
| "pool_step Clear p = fst (clear p)"

fun pool_run :: "'cfg pool_call list \<Rightarrow> 'cfg RTCPeerConnectionPool \<Rightarrow> 'cfg RTCPeerConnectionPool" where
  "pool_run [] p = p"
| "pool_run (c # cs) p = pool_run cs (pool_step c p)"

definition pool_inv :: "'cfg RTCPeerConnectionPool \<Rightarrow> bool" where
  "pool_inv p \<longleftrightarrow>
     active (pool_stats p) = int (length (activeConnections p)) \<and>
     distinct (activeConnections p) \<and>
     distinct (map fst (pendingClose p)) \<and>
     set (activeConnections p) \<inter> fst ` set (pendingClose p) = {} \<and>
     (\<forall>pc \<in> set (activeConnections p) \<union> fst ` set (pendingClose p). pc < constructed p) \<and>
     int (length (activeConnections p)) + int (length (pendingClose p)) \<le> created (pool_stats p)"

section \<open>The invariant behind the registry theorems\<close>

text \<open>
  What relates the server state to the membership read off the events, as long as every
  join comes while its user is in no other room: the socket bindings agree, a room lists
  exactly its members, once each, no stored room is empty, and a user's record names the
  one room the user is a member of.
\<close>

definition registry_inv :: "SignalingServer \<Rightarrow> Membership \<Rightarrow> bool" where
  "registry_inv s m \<longleftrightarrow>
     socketToUser s = sock_user m \<and>
     (\<forall>sid u. socketToUser s sid = Some u \<longrightarrow> u \<noteq> []) \<and>
     (\<forall>rid u. u \<in> set (getRoomUsers s rid) \<longleftrightarrow> (u, rid) \<in> set (member_of m)) \<and>
     (\<forall>rid room. rooms s rid = Some room \<longrightarrow> room_users room \<noteq> []) \<and>
     (\<forall>rid. distinct (getRoomUsers s rid)) \<and>
     (\<forall>u rid. (u, rid) \<in> set (member_of m) \<longrightarrow>
         rid \<noteq> [] \<and> (\<exists>ui. users s u = Some ui \<and> user_roomId ui = Some rid)) \<and>
     (\<forall>u ui rid. users s u = Some ui \<longrightarrow> user_roomId ui = Some rid \<longrightarrow>
         (u, rid) \<in> set (member_of m))"


text \<open>
  What relates the server state to the joins in force and the bound sockets, as long as
  \<open>one_id_per_socket\<close> holds: every socket the server has a user for is bound to that
  user id, which is not empty; the bound pairs match sockets and user ids one to one; a
  join in force is on a socket the server has under that user id; and a record that names
  a non-empty room belongs to a user id with a join in force.
\<close>

definition bindings_inv ::
  "SignalingServer \<Rightarrow> (string \<times> string \<times> string) list \<Rightarrow> (string \<times> string) list \<Rightarrow> bool" where
  "bindings_inv s js bs \<longleftrightarrow>
     (\<forall>sid u. socketToUser s sid = Some u \<longrightarrow> u \<noteq> [] \<and> (sid, u) \<in> set bs) \<and>
     (\<forall>b \<in> set bs. \<forall>b' \<in> set bs. (fst b = fst b') = (snd b = snd b')) \<and>
     (\<forall>j \<in> set js. socketToUser s (fst j) = Some (fst (snd j))) \<and>
     (\<forall>u ui r. users s u = Some ui \<longrightarrow> user_roomId ui = Some r \<longrightarrow> r \<noteq> [] \<longrightarrow>
        (\<exists>j \<in> set js. fst (snd j) = u))"

section \<open>Proofs: the registry\<close>

lemmas server_eval = handleJoinRoom_def handleLeaveRoom_def handleDisconnect_def new_server_def
  effectiveUserId_def getRoomUsers_def getRoom_def getUser_def Let_def

lemma inv_init: "registry_inv new_server no_members"
  by (simp add: registry_inv_def new_server_def no_members_def getRoomUsers_def)

lemma join_getRoomUsers:
  "getRoomUsers (fst (handleJoinRoom sid rid uid now s)) r =
     (if r = rid then
        (if effectiveUserId sid uid \<in> set (getRoomUsers s rid) then getRoomUsers s rid
         else getRoomUsers s rid @ [effectiveUserId sid uid])
      else getRoomUsers s r)"
  by (simp add: handleJoinRoom_def Let_def getRoomUsers_def split: option.splits)

lemma join_rooms:
  "rooms (fst (handleJoinRoom sid rid uid now s)) r = Some room \<Longrightarrow>
     (r = rid \<and> room_users room \<noteq> []) \<or> (r \<noteq> rid \<and> rooms s r = Some room) \<or> (r = rid \<and> rooms s r = Some room)"
  by (auto simp add: handleJoinRoom_def Let_def split: option.splits if_splits)

lemma join_users:
  "users (fst (handleJoinRoom sid rid uid now s)) =
     (users s)(effectiveUserId sid uid \<mapsto> \<lparr>user_userId = effectiveUserId sid uid, user_roomId = Some rid,
                      user_connected = True, user_joinedAt = Some now\<rparr>)"
  by (simp add: handleJoinRoom_def Let_def)

lemma join_socketToUser:
  "socketToUser (fst (handleJoinRoom sid rid uid now s)) = (socketToUser s)(sid \<mapsto> effectiveUserId sid uid)"
  by (simp add: handleJoinRoom_def Let_def)

lemma inv_join:
  assumes "registry_inv s m" "join_allowed (JoinRoom sid rid uid now) m"
  shows "registry_inv (handle (JoinRoom sid rid uid now) s) (track (JoinRoom sid rid uid now) m)"
proof -
  let ?a = "effectiveUserId sid uid"
  let ?s = "fst (handleJoinRoom sid rid uid now s)"
  from assms(2) have ok: "rid \<noteq> []" "?a \<noteq> []" "\<And>r. (?a, r) \<in> set (member_of m) \<Longrightarrow> r = rid"
    by (auto simp: list_all_iff)
  from assms(1) have i1: "socketToUser s = sock_user m"
    and i2: "\<And>sid u. socketToUser s sid = Some u \<Longrightarrow> u \<noteq> []"
    and i3: "\<And>rid u. u \<in> set (getRoomUsers s rid) \<longleftrightarrow> (u, rid) \<in> set (member_of m)"
    and i4: "\<And>rid room. rooms s rid = Some room \<Longrightarrow> room_users room \<noteq> []"
    and i5: "\<And>rid. distinct (getRoomUsers s rid)"
    and i6: "\<And>u rid. (u, rid) \<in> set (member_of m) \<Longrightarrow>
         rid \<noteq> [] \<and> (\<exists>ui. users s u = Some ui \<and> user_roomId ui = Some rid)"
    and i7: "\<And>u ui rid. users s u = Some ui \<Longrightarrow> user_roomId ui = Some rid \<Longrightarrow>
         (u, rid) \<in> set (member_of m)"
    unfolding registry_inv_def by blast+
  have c1: "socketToUser ?s = sock_user (track (JoinRoom sid rid uid now) m)"
    by (simp add: join_socketToUser i1)
  have c2: "\<forall>sid' u. socketToUser ?s sid' = Some u \<longrightarrow> u \<noteq> []"
    using i2 ok(2) by (auto simp: join_socketToUser)
  have c3: "\<forall>r u. u \<in> set (getRoomUsers ?s r) \<longleftrightarrow> (u, r) \<in> set (member_of (track (JoinRoom sid rid uid now) m))"
    using i3 by (auto simp: join_getRoomUsers)
  have c4: "\<forall>r room. rooms ?s r = Some room \<longrightarrow> room_users room \<noteq> []"
    using i4 join_rooms by blast
  have c5: "\<forall>r. distinct (getRoomUsers ?s r)"
    using i5 by (simp add: join_getRoomUsers)
  have c6: "\<forall>u r. (u, r) \<in> set (member_of (track (JoinRoom sid rid uid now) m)) \<longrightarrow>
         r \<noteq> [] \<and> (\<exists>ui. users ?s u = Some ui \<and> user_roomId ui = Some r)"
    using i6 ok by (auto simp: join_users)
  have c7: "\<forall>u ui r. users ?s u = Some ui \<longrightarrow> user_roomId ui = Some r \<longrightarrow>
         (u, r) \<in> set (member_of (track (JoinRoom sid rid uid now) m))"
    using i7 by (auto simp: join_users split: if_splits)
  show ?thesis
    unfolding registry_inv_def using c1 c2 c3 c4 c5 c6 c7 by simp
qed


lemma inv_cong:
  "registry_inv s m \<Longrightarrow> sock_user m' = sock_user m \<Longrightarrow>
     set (member_of m') = set (member_of m) \<Longrightarrow> registry_inv s m'"
  by (simp add: registry_inv_def)

lemma leave_socketToUser: "socketToUser (fst (handleLeaveRoom sid s)) = socketToUser s"
  by (auto simp: handleLeaveRoom_def Let_def split: option.splits prod.splits)

lemma leave_noop:
  "socketToUser s sid = None \<or> socketToUser s sid = Some [] \<or>
   (\<exists>u. socketToUser s sid = Some u \<and>
     (users s u = None \<or> (\<exists>ui. users s u = Some ui \<and> \<not> truthy (user_roomId ui)))) \<Longrightarrow>
   handleLeaveRoom sid s = (s, [])"
  by (auto simp: handleLeaveRoom_def split: option.splits)

lemma leave_active_getRoomUsers:
  assumes "socketToUser s sid = Some u" "u \<noteq> []" "users s u = Some ui"
    "user_roomId ui = Some rid" "rid \<noteq> []"
  shows "getRoomUsers (fst (handleLeaveRoom sid s)) r =
     (if r = rid then filter (\<lambda>i. i \<noteq> u) (getRoomUsers s rid) else getRoomUsers s r)"
  using assms
  by (simp add: handleLeaveRoom_def Let_def getRoomUsers_def split: option.splits)

lemma leave_active_users:
  assumes "socketToUser s sid = Some u" "u \<noteq> []" "users s u = Some ui"
    "user_roomId ui = Some rid" "rid \<noteq> []"
  shows "users (fst (handleLeaveRoom sid s)) =
     (users s)(u \<mapsto> ui\<lparr>user_roomId := None, user_connected := False\<rparr>)"
  using assms
  by (simp add: handleLeaveRoom_def Let_def split: option.splits prod.splits)

lemma leave_rooms_nonempty:
  assumes "\<And>r room. rooms s r = Some room \<Longrightarrow> room_users room \<noteq> []"
    and "rooms (fst (handleLeaveRoom sid s)) r = Some room"
  shows "room_users room \<noteq> []"
  using assms
  by (auto simp: handleLeaveRoom_def Let_def split: option.splits if_splits prod.splits)

lemma inv_leave:
  assumes "registry_inv s m"
  shows "registry_inv (handle (LeaveRoom sid) s) (track (LeaveRoom sid) m)"
proof -
  let ?s = "fst (handleLeaveRoom sid s)"
  let ?m = "track (LeaveRoom sid) m"
  from assms have i1: "socketToUser s = sock_user m"
    and i2: "\<And>sid u. socketToUser s sid = Some u \<Longrightarrow> u \<noteq> []"
    and i3: "\<And>rid u. u \<in> set (getRoomUsers s rid) \<longleftrightarrow> (u, rid) \<in> set (member_of m)"
    and i4: "\<And>rid room. rooms s rid = Some room \<Longrightarrow> room_users room \<noteq> []"
    and i5: "\<And>rid. distinct (getRoomUsers s rid)"
    and i6: "\<And>u rid. (u, rid) \<in> set (member_of m) \<Longrightarrow>
         rid \<noteq> [] \<and> (\<exists>ui. users s u = Some ui \<and> user_roomId ui = Some rid)"
    and i7: "\<And>u ui rid. users s u = Some ui \<Longrightarrow> user_roomId ui = Some rid \<Longrightarrow>
         (u, rid) \<in> set (member_of m)"
    unfolding registry_inv_def by blast+
  show ?thesis
  proof (cases "socketToUser s sid")
    case None
    then have "?s = s" "?m = m" by (simp_all add: leave_noop i1 [symmetric])
    with assms show ?thesis by simp
  next
    case (Some u)
    then have u: "u \<noteq> []" using i2 by blast
    have m: "sock_user ?m = sock_user m"
      "set (member_of ?m) = {p \<in> set (member_of m). fst p \<noteq> u}"
      using Some by (auto simp: i1 [symmetric])
    show ?thesis
    proof (cases "\<exists>ui rid. users s u = Some ui \<and> user_roomId ui = Some rid")
      case False
      then have nop: "handleLeaveRoom sid s = (s, [])"
        using Some by (intro leave_noop) (cases "users s u"; auto)
      have none: "\<And>r. (u, r) \<notin> set (member_of m)" using i6 False by blast
      then have "set (member_of ?m) = set (member_of m)" using m(2) by auto
      with assms m(1) have "registry_inv s ?m" by (rule inv_cong)
      then show ?thesis by (simp add: nop)
    next
      case True
      then obtain ui rid where ui: "users s u = Some ui" "user_roomId ui = Some rid" by blast
      then have inr: "(u, rid) \<in> set (member_of m)" using i7 by blast
      then have rid: "rid \<noteq> []" using i6 by blast
      have only: "\<And>r. (u, r) \<in> set (member_of m) \<Longrightarrow> r = rid"
        using i6 ui by fastforce
      note gru = leave_active_getRoomUsers [OF Some u ui rid]
      note usr = leave_active_users [OF Some u ui rid]
      have c1: "socketToUser ?s = sock_user ?m"
        by (simp add: leave_socketToUser i1 m(1) del: track.simps)
      have c2: "\<forall>sid' u. socketToUser ?s sid' = Some u \<longrightarrow> u \<noteq> []"
        using i2 by (simp add: leave_socketToUser)
      have c3: "\<forall>r v. v \<in> set (getRoomUsers ?s r) \<longleftrightarrow> (v, r) \<in> set (member_of ?m)"
        using i3 only by (auto simp: gru m(2) simp del: track.simps)
      have c4: "\<forall>r room. rooms ?s r = Some room \<longrightarrow> room_users room \<noteq> []"
        using leave_rooms_nonempty [of s sid] i4 by blast
      have c5: "\<forall>r. distinct (getRoomUsers ?s r)"
        using i5 by (simp add: gru)
      have c6: "\<forall>v r. (v, r) \<in> set (member_of ?m) \<longrightarrow>
         r \<noteq> [] \<and> (\<exists>vi. users ?s v = Some vi \<and> user_roomId vi = Some r)"
        using i6 by (auto simp: usr m(2) simp del: track.simps)
      have c7: "\<forall>v vi r. users ?s v = Some vi \<longrightarrow> user_roomId vi = Some r \<longrightarrow>
         (v, r) \<in> set (member_of ?m)"
        using i7 by (auto simp: usr m(2) simp del: track.simps split: if_splits)
      show ?thesis
        unfolding registry_inv_def using c1 c2 c3 c4 c5 c6 c7 by simp
    qed
  qed
qed


lemma inv_disconnect:
  assumes "registry_inv s m"
  shows "registry_inv (handle (Disconnect sid) s) (track (Disconnect sid) m)"
proof (cases "socketToUser s sid")
  case None
  moreover from assms have "sock_user m = socketToUser s" by (simp add: registry_inv_def)
  ultimately show ?thesis using assms by (simp add: handleDisconnect_def)
next
  case (Some u)
  let ?s1 = "fst (handleLeaveRoom sid s)"
  let ?m1 = "track (LeaveRoom sid) m"
  let ?s = "fst (handleDisconnect sid s)"
  let ?m = "track (Disconnect sid) m"
  have l: "registry_inv ?s1 ?m1" using inv_leave [OF assms, of sid] by simp
  from assms have i1: "socketToUser s = sock_user m"
    and i2: "\<And>sid u. socketToUser s sid = Some u \<Longrightarrow> u \<noteq> []"
    unfolding registry_inv_def by blast+
  have u: "u \<noteq> []" using i2 Some by blast
  have s: "?s = ?s1\<lparr>socketToUser := (socketToUser ?s1)(sid := None),
                    userToSocket := (userToSocket ?s1)(u := None),
                    users := (users ?s1)(u := None)\<rparr>"
    using Some u by (simp add: handleDisconnect_def split: prod.splits)
  have m: "?m = ?m1\<lparr>sock_user := (sock_user ?m1)(sid := None)\<rparr>"
    using Some by (simp add: i1 [symmetric])
  have gone: "\<And>r. (u, r) \<notin> set (member_of ?m1)"
    using Some by (simp add: i1 [symmetric])
  from l have j1: "socketToUser ?s1 = sock_user ?m1"
    and j2: "\<And>sid u. socketToUser ?s1 sid = Some u \<Longrightarrow> u \<noteq> []"
    and j3: "\<And>rid u. u \<in> set (getRoomUsers ?s1 rid) \<longleftrightarrow> (u, rid) \<in> set (member_of ?m1)"
    and j4: "\<And>rid room. rooms ?s1 rid = Some room \<Longrightarrow> room_users room \<noteq> []"
    and j5: "\<And>rid. distinct (getRoomUsers ?s1 rid)"
    and j6: "\<And>u rid. (u, rid) \<in> set (member_of ?m1) \<Longrightarrow>
         rid \<noteq> [] \<and> (\<exists>ui. users ?s1 u = Some ui \<and> user_roomId ui = Some rid)"
    and j7: "\<And>u ui rid. users ?s1 u = Some ui \<Longrightarrow> user_roomId ui = Some rid \<Longrightarrow>
         (u, rid) \<in> set (member_of ?m1)"
    unfolding registry_inv_def by blast+
  have g: "\<And>r. getRoomUsers ?s r = getRoomUsers ?s1 r" "rooms ?s = rooms ?s1"
    by (simp_all add: s getRoomUsers_def)
  have c1: "socketToUser ?s = sock_user ?m" by (simp only: s m) (simp add: j1)
  have c2: "\<forall>sid' u. socketToUser ?s sid' = Some u \<longrightarrow> u \<noteq> []"
    using j2 by (simp only: s) (simp)
  have c3: "\<forall>r v. v \<in> set (getRoomUsers ?s r) \<longleftrightarrow> (v, r) \<in> set (member_of ?m)"
    using j3 by (simp only: g m) simp
  have c4: "\<forall>r room. rooms ?s r = Some room \<longrightarrow> room_users room \<noteq> []"
    using j4 by (simp only: g) blast
  have c5: "\<forall>r. distinct (getRoomUsers ?s r)"
    using j5 by (simp only: g) simp
  have c6: "\<forall>v r. (v, r) \<in> set (member_of ?m) \<longrightarrow>
         r \<noteq> [] \<and> (\<exists>vi. users ?s v = Some vi \<and> user_roomId vi = Some r)"
  proof (intro allI impI)
    fix v r assume "(v, r) \<in> set (member_of ?m)"
    then have a: "(v, r) \<in> set (member_of ?m1)" by (simp only: m) simp
    with gone have "v \<noteq> u" by blast
    with j6 [OF a] show "r \<noteq> [] \<and> (\<exists>vi. users ?s v = Some vi \<and> user_roomId vi = Some r)"
      by (simp only: s) simp
  qed
  have c7: "\<forall>v vi r. users ?s v = Some vi \<longrightarrow> user_roomId vi = Some r \<longrightarrow>
         (v, r) \<in> set (member_of ?m)"
  proof (intro allI impI)
    fix v vi r assume a: "users ?s v = Some vi" "user_roomId vi = Some r"
    from a(1) have "users ?s1 v = Some vi" by (simp only: s) (simp split: if_splits)
    from j7 [OF this a(2)] show "(v, r) \<in> set (member_of ?m)" by (simp only: m) simp
  qed
  show ?thesis
    unfolding registry_inv_def handle.simps using c1 c2 c3 c4 c5 c6 c7 by blast
qed

lemma inv_run:
  "registry_inv s m \<Longrightarrow> one_room_at_a_time evs m \<Longrightarrow> registry_inv (run evs s) (tracked evs m)"
proof (induction evs arbitrary: s m)
  case Nil
  then show ?case by simp
next
  case (Cons e evs)
  from Cons.prems have a: "join_allowed e m" "one_room_at_a_time evs (track e m)" by simp_all
  have "registry_inv (handle e s) (track e m)"
  proof (cases e)
    case (JoinRoom sid rid uid now)
    then show ?thesis using inv_join Cons.prems(1) a(1) by blast
  next
    case (LeaveRoom sid)
    then show ?thesis using inv_leave Cons.prems(1) by blast
  next
    case (Disconnect sid)
    then show ?thesis using inv_disconnect Cons.prems(1) by blast
  qed
  from Cons.IH [OF this a(2)] show ?case by simp
qed


text \<open>
  Claim C3, as amended. In every state reached by join-room, leave-room and disconnect
  events in which each join names a non-empty room, is made by a non-empty user id and
  comes while that user is a member of no other room, the \<open>roomId\<close> of a user's record
  is defined if and only if the user is in the member list of exactly one room.
\<close>

theorem user_roomId_one_room:
  assumes "one_room_at_a_time evs no_members"
  shows "(\<exists>ui rid. getUser (run evs new_server) u = Some ui \<and> user_roomId ui = Some rid) \<longleftrightarrow>
         (\<exists>!rid. u \<in> set (getRoomUsers (run evs new_server) rid))"
proof -
  let ?s = "run evs new_server"
  let ?m = "tracked evs no_members"
  have i: "registry_inv ?s ?m"
    using inv_run [OF inv_init assms] .
  then have i3: "\<And>rid u. u \<in> set (getRoomUsers ?s rid) \<longleftrightarrow> (u, rid) \<in> set (member_of ?m)"
    and i6: "\<And>u rid. (u, rid) \<in> set (member_of ?m) \<Longrightarrow>
         rid \<noteq> [] \<and> (\<exists>ui. users ?s u = Some ui \<and> user_roomId ui = Some rid)"
    and i7: "\<And>u ui rid. users ?s u = Some ui \<Longrightarrow> user_roomId ui = Some rid \<Longrightarrow>
         (u, rid) \<in> set (member_of ?m)"
    unfolding registry_inv_def by blast+
  show ?thesis
  proof
    assume "\<exists>ui rid. getUser ?s u = Some ui \<and> user_roomId ui = Some rid"
    then obtain ui rid where ui: "users ?s u = Some ui" "user_roomId ui = Some rid"
      by (auto simp: getUser_def)
    then have "u \<in> set (getRoomUsers ?s rid)" using i7 i3 by blast
    moreover have "\<And>r. u \<in> set (getRoomUsers ?s r) \<Longrightarrow> r = rid"
      using i3 i6 ui by fastforce
    ultimately show "\<exists>!rid. u \<in> set (getRoomUsers ?s rid)" by blast
  next
    assume "\<exists>!rid. u \<in> set (getRoomUsers ?s rid)"
    then obtain rid where "u \<in> set (getRoomUsers ?s rid)" by blast
    then show "\<exists>ui rid. getUser ?s u = Some ui \<and> user_roomId ui = Some rid"
      using i3 i6 by (fastforce simp: getUser_def)
  qed
qed


theorem user_roomId_one_room_witness:
  "one_room_at_a_time [JoinRoom ''s1'' ''r1'' None 0, LeaveRoom ''s1'',
                       JoinRoom ''s1'' ''r2'' None 2] no_members \<and>
   (\<exists>!rid. ''s1'' \<in> set (getRoomUsers (run [JoinRoom ''s1'' ''r1'' None 0, LeaveRoom ''s1'',
                       JoinRoom ''s1'' ''r2'' None 2] new_server) rid))"
proof -
  let ?evs = "[JoinRoom ''s1'' ''r1'' None 0, LeaveRoom ''s1'', JoinRoom ''s1'' ''r2'' None 2]"
  have h: "one_room_at_a_time ?evs no_members"
    by (simp add: no_members_def effectiveUserId_def)
  have e: "\<exists>ui rid. getUser (run ?evs new_server) ''s1'' = Some ui \<and> user_roomId ui = Some rid"
    by (simp add: server_eval)
  from user_roomId_one_room [OF h, of "''s1''"] h e show ?thesis by blast
qed

text \<open>
  The claim as first stated fails: \<open>handleJoinRoom\<close> does not take the user out of the
  room joined before, so after joining \<open>r1\<close> and then \<open>r2\<close> the user is listed in both.
\<close>

theorem user_roomId_one_room_counterexample:
  "map_option user_roomId
     (getUser (run [JoinRoom ''s1'' ''r1'' None 0, JoinRoom ''s1'' ''r2'' None 1] new_server) ''s1'')
     = Some (Some ''r2'') \<and>
   ''s1'' \<in> set (getRoomUsers
      (run [JoinRoom ''s1'' ''r1'' None 0, JoinRoom ''s1'' ''r2'' None 1] new_server) ''r1'') \<and>
   ''s1'' \<in> set (getRoomUsers
      (run [JoinRoom ''s1'' ''r1'' None 0, JoinRoom ''s1'' ''r2'' None 1] new_server) ''r2'')"
  by (simp add: server_eval)


text \<open>What a leave does, by cases.\<close>

lemma leave_cases:
  obtains (idle) "handleLeaveRoom sid s = (s, [])"
  | (active) u ui rid where "socketToUser s sid = Some u" "u \<noteq> []" "users s u = Some ui"
      "user_roomId ui = Some rid" "rid \<noteq> []"
proof (cases "socketToUser s sid")
  case None
  then show ?thesis using idle leave_noop by blast
next
  case (Some u)
  show ?thesis
  proof (cases "u = []")
    case True
    then show ?thesis using Some idle leave_noop by blast
  next
    case False
    show ?thesis
    proof (cases "users s u")
      case None
      then show ?thesis using Some idle leave_noop by blast
    next
      case ui: (Some ui)
      show ?thesis
      proof (cases "truthy (user_roomId ui)")
        case True
        then obtain rid where "user_roomId ui = Some rid" "rid \<noteq> []"
          by (cases "user_roomId ui") auto
        then show ?thesis using active Some False ui by blast
      next
        case no: False
        then show ?thesis using Some ui idle leave_noop by blast
      qed
    qed
  qed
qed


section \<open>Proofs: the members of a room\<close>

text \<open>
  The second invariant ties the server's maps to the joins in force: while sockets and user
  ids stay paired one to one, a socket's leave or disconnect ends exactly the joins of its
  user, so the rooms of a user as the handlers count them are the rooms of the joins in
  force.
\<close>

lemma bindings_init: "bindings_inv new_server [] []"
  by (simp add: bindings_inv_def new_server_def)

lemma bindings_join:
  assumes "bindings_inv s js bs" "same_identity (JoinRoom sid rid uid now) bs"
  shows "bindings_inv (handle (JoinRoom sid rid uid now) s)
           (in_force_step (JoinRoom sid rid uid now) js) (bound_step (JoinRoom sid rid uid now) bs)"
proof -
  let ?a = "effectiveUserId sid uid"
  let ?s = "fst (handleJoinRoom sid rid uid now s)"
  from assms(2) have a: "?a \<noteq> []" and ok: "\<And>b. b \<in> set bs \<Longrightarrow> (fst b = sid) = (snd b = ?a)"
    by (auto simp: list_all_iff)
  from assms(1) have k1: "\<And>x u. socketToUser s x = Some u \<Longrightarrow> u \<noteq> [] \<and> (x, u) \<in> set bs"
    and k2: "\<And>b b'. b \<in> set bs \<Longrightarrow> b' \<in> set bs \<Longrightarrow> (fst b = fst b') = (snd b = snd b')"
    and k3: "\<And>j. j \<in> set js \<Longrightarrow> socketToUser s (fst j) = Some (fst (snd j))"
    and k4: "\<And>u ui r. users s u = Some ui \<Longrightarrow> user_roomId ui = Some r \<Longrightarrow> r \<noteq> [] \<Longrightarrow>
        \<exists>j \<in> set js. fst (snd j) = u"
    unfolding bindings_inv_def by blast+
  have c1: "\<forall>x u. socketToUser ?s x = Some u \<longrightarrow> u \<noteq> [] \<and> (x, u) \<in> set ((sid, ?a) # bs)"
    using k1 a by (auto simp: join_socketToUser)
  have c2: "\<forall>b \<in> set ((sid, ?a) # bs). \<forall>b' \<in> set ((sid, ?a) # bs).
              (fst b = fst b') = (snd b = snd b')"
    using k2 ok by (auto simp: eq_commute)
  have c3: "\<forall>j \<in> set ((sid, ?a, rid) # js). socketToUser ?s (fst j) = Some (fst (snd j))"
  proof
    fix j assume j: "j \<in> set ((sid, ?a, rid) # js)"
    show "socketToUser ?s (fst j) = Some (fst (snd j))"
    proof (cases "fst j = sid")
      case False
      with j have "j \<in> set js" by auto
      from k3 [OF this] False show ?thesis by (simp add: join_socketToUser)
    next
      case True
      show ?thesis
      proof (cases "j = (sid, ?a, rid)")
        case True
        then show ?thesis by (simp add: join_socketToUser)
      next
        case False
        with j have jj: "j \<in> set js" by simp
        from k3 [OF jj] True have "socketToUser s sid = Some (fst (snd j))" by simp
        from k1 [OF this] have "(sid, fst (snd j)) \<in> set bs" by simp
        from ok [OF this] have "fst (snd j) = ?a" by simp
        with True show ?thesis by (simp add: join_socketToUser)
      qed
    qed
  qed
  have c4: "\<forall>u ui r. users ?s u = Some ui \<longrightarrow> user_roomId ui = Some r \<longrightarrow> r \<noteq> [] \<longrightarrow>
        (\<exists>j \<in> set ((sid, ?a, rid) # js). fst (snd j) = u)"
    using k4 by (auto simp: join_users split: if_splits)
  show ?thesis
    unfolding bindings_inv_def handle.simps in_force_step.simps bound_step.simps
    using c1 c2 c3 c4 by blast
qed

lemma bindings_leave:
  assumes "bindings_inv s js bs"
  shows "bindings_inv (handle (LeaveRoom sid) s)
           (in_force_step (LeaveRoom sid) js) (bound_step (LeaveRoom sid) bs)"
proof -
  let ?s = "fst (handleLeaveRoom sid s)"
  let ?js = "filter (\<lambda>j. fst j \<noteq> sid) js"
  from assms have k1: "\<And>x u. socketToUser s x = Some u \<Longrightarrow> u \<noteq> [] \<and> (x, u) \<in> set bs"
    and k2: "\<forall>b \<in> set bs. \<forall>b' \<in> set bs. (fst b = fst b') = (snd b = snd b')"
    and k3: "\<And>j. j \<in> set js \<Longrightarrow> socketToUser s (fst j) = Some (fst (snd j))"
    and k4: "\<And>u ui r. users s u = Some ui \<Longrightarrow> user_roomId ui = Some r \<Longrightarrow> r \<noteq> [] \<Longrightarrow>
        \<exists>j \<in> set js. fst (snd j) = u"
    unfolding bindings_inv_def by blast+
  have c1: "\<forall>x u. socketToUser ?s x = Some u \<longrightarrow> u \<noteq> [] \<and> (x, u) \<in> set bs"
    using k1 by (simp add: leave_socketToUser)
  have c3: "\<forall>j \<in> set ?js. socketToUser ?s (fst j) = Some (fst (snd j))"
    using k3 by (simp add: leave_socketToUser)
  have c4: "\<forall>u ui r. users ?s u = Some ui \<longrightarrow> user_roomId ui = Some r \<longrightarrow> r \<noteq> [] \<longrightarrow>
        (\<exists>j \<in> set ?js. fst (snd j) = u)"
  proof (intro allI impI)
    fix u ui r
    assume u: "users ?s u = Some ui" "user_roomId ui = Some r" "r \<noteq> []"
    show "\<exists>j \<in> set ?js. fst (snd j) = u"
    proof (cases sid s rule: leave_cases)
      case idle
      with u have us: "users s u = Some ui" by simp
      from k4 [OF this u(2,3)] obtain j where j: "j \<in> set js" "fst (snd j) = u" by blast
      have "fst j \<noteq> sid"
      proof
        assume "fst j = sid"
        with k3 [OF j(1)] j(2) have b: "socketToUser s sid = Some u" by simp
        with k1 have "u \<noteq> []" by blast
        from leave_active_users [OF b this us u(2,3)]
        have "users ?s u = Some (ui\<lparr>user_roomId := None, user_connected := False\<rparr>)" by simp
        with u(1) have "ui = ui\<lparr>user_roomId := None, user_connected := False\<rparr>" by simp
        then have "user_roomId ui = user_roomId (ui\<lparr>user_roomId := None, user_connected := False\<rparr>)"
          by (rule arg_cong)
        with u(2) show False by simp
      qed
      with j(1) have "j \<in> set ?js" by simp
      with j(2) show ?thesis by blast
    next
      case (active v vi rid)
      note usr = leave_active_users [OF active]
      from u(1,2) have ne: "u \<noteq> v" by (auto simp: usr split: if_splits)
      with u(1) have us: "users s u = Some ui" by (simp add: usr)
      from k4 [OF this u(2,3)] obtain j where j: "j \<in> set js" "fst (snd j) = u" by blast
      have "fst j \<noteq> sid"
      proof
        assume "fst j = sid"
        with k3 [OF j(1)] j(2) have "socketToUser s sid = Some u" by simp
        with active(1) ne show False by simp
      qed
      with j(1) have "j \<in> set ?js" by simp
      with j(2) show ?thesis by blast
    qed
  qed
  show ?thesis
    unfolding bindings_inv_def handle.simps in_force_step.simps bound_step.simps
    using c1 k2 c3 c4 by blast
qed

lemma bindings_disconnect:
  assumes "bindings_inv s js bs"
  shows "bindings_inv (handle (Disconnect sid) s)
           (in_force_step (Disconnect sid) js) (bound_step (Disconnect sid) bs)"
proof -
  let ?s1 = "fst (handleLeaveRoom sid s)"
  let ?s = "fst (handleDisconnect sid s)"
  let ?js = "filter (\<lambda>j. fst j \<noteq> sid) js"
  let ?bs = "filter (\<lambda>b. fst b \<noteq> sid) bs"
  from bindings_leave [OF assms, of sid]
  have l: "bindings_inv ?s1 ?js bs" by simp
  then have k1: "\<And>x u. socketToUser ?s1 x = Some u \<Longrightarrow> u \<noteq> [] \<and> (x, u) \<in> set bs"
    and k2: "\<forall>b \<in> set bs. \<forall>b' \<in> set bs. (fst b = fst b') = (snd b = snd b')"
    and k3: "\<And>j. j \<in> set ?js \<Longrightarrow> socketToUser ?s1 (fst j) = Some (fst (snd j))"
    and k4: "\<And>u ui r. users ?s1 u = Some ui \<Longrightarrow> user_roomId ui = Some r \<Longrightarrow> r \<noteq> [] \<Longrightarrow>
        \<exists>j \<in> set ?js. fst (snd j) = u"
    unfolding bindings_inv_def by blast+
  from assms have k0: "\<And>u. socketToUser s sid = Some u \<Longrightarrow> u \<noteq> []"
    unfolding bindings_inv_def by blast
  have d: "?s = (case socketToUser s sid of
                  None \<Rightarrow> s
                | Some v \<Rightarrow> ?s1\<lparr>socketToUser := (socketToUser ?s1)(sid := None),
                                 userToSocket := (userToSocket ?s1)(v := None),
                                 users := (users ?s1)(v := None)\<rparr>)"
    using k0 by (simp add: handleDisconnect_def case_prod_beta split: option.splits)
  have sock: "socketToUser ?s = (socketToUser ?s1)(sid := None)"
  proof (cases "socketToUser s sid")
    case None
    then have "?s = s" "?s1 = s" by (simp_all add: d leave_noop)
    with None show ?thesis by (simp add: fun_upd_idem)
  next
    case (Some v)
    then show ?thesis by (simp add: d)
  qed
  have usr: "\<And>u ui. users ?s u = Some ui \<Longrightarrow> users ?s1 u = Some ui"
  proof (cases "socketToUser s sid")
    case None
    then have "?s = s" "?s1 = s" by (simp_all add: d leave_noop)
    then show "\<And>u ui. users ?s u = Some ui \<Longrightarrow> users ?s1 u = Some ui" by simp
  next
    case (Some v)
    fix u ui assume "users ?s u = Some ui"
    with Some show "users ?s1 u = Some ui" by (simp add: d split: if_splits)
  qed
  have c1: "\<forall>x u. socketToUser ?s x = Some u \<longrightarrow> u \<noteq> [] \<and> (x, u) \<in> set ?bs"
    using k1 by (auto simp: sock split: if_splits)
  have c2: "\<forall>b \<in> set ?bs. \<forall>b' \<in> set ?bs. (fst b = fst b') = (snd b = snd b')"
    using k2 by simp
  have c3: "\<forall>j \<in> set ?js. socketToUser ?s (fst j) = Some (fst (snd j))"
    using k3 by (simp add: sock)
  have c4: "\<forall>u ui r. users ?s u = Some ui \<longrightarrow> user_roomId ui = Some r \<longrightarrow> r \<noteq> [] \<longrightarrow>
        (\<exists>j \<in> set ?js. fst (snd j) = u)"
    using k4 usr by blast
  show ?thesis
    unfolding bindings_inv_def handle.simps in_force_step.simps bound_step.simps
    using c1 c2 c3 c4 by blast
qed


lemma inv_step:
  "registry_inv s m \<Longrightarrow> join_allowed e m \<Longrightarrow> registry_inv (handle e s) (track e m)"
proof (cases e)
  case (JoinRoom sid rid uid now)
  assume "registry_inv s m" "join_allowed e m"
  then show ?thesis unfolding JoinRoom by (rule inv_join)
next
  case (LeaveRoom sid)
  assume "registry_inv s m"
  then show ?thesis unfolding LeaveRoom by (rule inv_leave)
next
  case (Disconnect sid)
  assume "registry_inv s m"
  then show ?thesis unfolding Disconnect by (rule inv_disconnect)
qed

lemma bindings_step:
  "bindings_inv s js bs \<Longrightarrow> same_identity e bs \<Longrightarrow>
     bindings_inv (handle e s) (in_force_step e js) (bound_step e bs)"
proof (cases e)
  case (JoinRoom sid rid uid now)
  assume "bindings_inv s js bs" "same_identity e bs"
  then show ?thesis unfolding JoinRoom by (rule bindings_join)
next
  case (LeaveRoom sid)
  assume "bindings_inv s js bs"
  then show ?thesis unfolding LeaveRoom by (rule bindings_leave)
next
  case (Disconnect sid)
  assume "bindings_inv s js bs"
  then show ?thesis unfolding Disconnect by (rule bindings_disconnect)
qed

lemma socket_ends_user:
  assumes "bindings_inv s js bs" "socketToUser s sid = Some u"
  shows "set (filter (\<lambda>p. fst p \<noteq> u) (map (\<lambda>j. (fst (snd j), snd (snd j))) js)) =
         set (map (\<lambda>j. (fst (snd j), snd (snd j))) (filter (\<lambda>j. fst j \<noteq> sid) js))"
proof -
  from assms(1) have k1: "\<And>x u. socketToUser s x = Some u \<Longrightarrow> (x, u) \<in> set bs"
    and k2: "\<And>b b'. b \<in> set bs \<Longrightarrow> b' \<in> set bs \<Longrightarrow> (fst b = fst b') = (snd b = snd b')"
    and k3: "\<And>j. j \<in> set js \<Longrightarrow> socketToUser s (fst j) = Some (fst (snd j))"
    unfolding bindings_inv_def by blast+
  have "\<And>j. j \<in> set js \<Longrightarrow> (fst (snd j) \<noteq> u) = (fst j \<noteq> sid)"
  proof -
    fix j assume "j \<in> set js"
    from k1 [OF k3 [OF this]] k1 [OF assms(2)] k2
    have "(fst j = sid) = (fst (snd j) = u)" by fastforce
    then show "(fst (snd j) \<noteq> u) = (fst j \<noteq> sid)" by simp
  qed
  then have "filter (\<lambda>j. fst (snd j) \<noteq> u) js = filter (\<lambda>j. fst j \<noteq> sid) js"
    by (intro filter_cong) auto
  then show ?thesis by (simp add: filter_map comp_def)
qed

lemma members_step:
  assumes r: "set (member_of m) = set (map (\<lambda>j. (fst (snd j), snd (snd j))) js)"
    and k: "bindings_inv s js bs" and s: "socketToUser s = sock_user m"
  shows "set (member_of (track e m)) =
           set (map (\<lambda>j. (fst (snd j), snd (snd j))) (in_force_step e js))"
proof -
  have none: "\<And>sid. sock_user m sid = None \<Longrightarrow> filter (\<lambda>j. fst j \<noteq> sid) js = js"
  proof -
    fix sid assume "sock_user m sid = None"
    then have "\<And>j. j \<in> set js \<Longrightarrow> fst j \<noteq> sid"
      using k s unfolding bindings_inv_def by fastforce
    then show "filter (\<lambda>j. fst j \<noteq> sid) js = js" by (simp add: filter_id_conv)
  qed
  have some: "\<And>sid u. sock_user m sid = Some u \<Longrightarrow>
      set (filter (\<lambda>p. fst p \<noteq> u) (member_of m)) =
      set (map (\<lambda>j. (fst (snd j), snd (snd j))) (filter (\<lambda>j. fst j \<noteq> sid) js))"
  proof -
    fix sid u assume "sock_user m sid = Some u"
    then have "socketToUser s sid = Some u" by (simp add: s)
    from socket_ends_user [OF k this] r show
      "set (filter (\<lambda>p. fst p \<noteq> u) (member_of m)) =
       set (map (\<lambda>j. (fst (snd j), snd (snd j))) (filter (\<lambda>j. fst j \<noteq> sid) js))"
      by simp
  qed
  show ?thesis
  proof (cases e)
    case (JoinRoom sid rid uid now)
    then show ?thesis using r by simp
  next
    case (LeaveRoom sid)
    then show ?thesis using r none [of sid] some [of sid]
      by (cases "sock_user m sid") simp_all
  next
    case (Disconnect sid)
    then show ?thesis using r none [of sid] some [of sid]
      by (cases "sock_user m sid") simp_all
  qed
qed

lemma allowed_step:
  assumes "set (member_of m) = set (map (\<lambda>j. (fst (snd j), snd (snd j))) js)"
    and "in_no_other_room e js" "same_identity e bs"
  shows "join_allowed e m"
proof (cases e)
  case (JoinRoom sid rid uid now)
  with assms(2) have a: "rid \<noteq> []"
    "\<And>j. j \<in> set js \<Longrightarrow> fst (snd j) \<noteq> effectiveUserId sid uid \<or> snd (snd j) = rid"
    by (auto simp: list_all_iff)
  from JoinRoom assms(3) have b: "effectiveUserId sid uid \<noteq> []" by simp
  have "\<And>p. p \<in> set (member_of m) \<Longrightarrow> fst p \<noteq> effectiveUserId sid uid \<or> snd p = rid"
  proof -
    fix p assume "p \<in> set (member_of m)"
    with assms(1) obtain j where "j \<in> set js" "p = (fst (snd j), snd (snd j))" by auto
    with a(2) show "fst p \<noteq> effectiveUserId sid uid \<or> snd p = rid" by auto
  qed
  with a(1) b show ?thesis unfolding JoinRoom by (simp add: list_all_iff)
qed simp_all

lemma orderly_run:
  assumes "registry_inv s m" "bindings_inv s js bs"
    and "set (member_of m) = set (map (\<lambda>j. (fst (snd j), snd (snd j))) js)"
    and "one_id_per_socket evs bs" "one_room_per_user evs js"
  shows "registry_inv (run evs s) (tracked evs m) \<and>
         set (member_of (tracked evs m)) =
           set (map (\<lambda>j. (fst (snd j), snd (snd j))) (in_force evs js))"
  using assms
proof (induction evs arbitrary: s m js bs)
  case Nil
  then show ?case by simp
next
  case (Cons e evs)
  from Cons.prems(4) have i: "same_identity e bs" "one_id_per_socket evs (bound_step e bs)"
    by simp_all
  from Cons.prems(5) have o: "in_no_other_room e js" "one_room_per_user evs (in_force_step e js)"
    by simp_all
  have al: "join_allowed e m" using Cons.prems(3) o(1) i(1) by (rule allowed_step)
  have r1: "registry_inv (handle e s) (track e m)" using Cons.prems(1) al by (rule inv_step)
  have k1: "bindings_inv (handle e s) (in_force_step e js) (bound_step e bs)"
    using Cons.prems(2) i(1) by (rule bindings_step)
  from Cons.prems(1) have "socketToUser s = sock_user m" by (simp add: registry_inv_def)
  with Cons.prems(3,2) have m1: "set (member_of (track e m)) =
           set (map (\<lambda>j. (fst (snd j), snd (snd j))) (in_force_step e js))"
    by (rule members_step)
  from Cons.IH [OF r1 k1 m1 i(2) o(2)] show ?case by simp
qed


text \<open>
  Claim C1, as amended. Take any sequence of join-room, leave-room and disconnect events in
  which every join names a non-empty room and is made under a non-empty user id, a socket
  that has joined keeps its user id until it disconnects, no user id is used by two sockets
  of which neither has disconnected, and each join comes while the user has no join in
  force in another room. Then each room's member list holds exactly, and once each, the
  users who joined that room and have not since left or disconnected, and the room is
  absent from the registry (\<open>getRoom\<close> returns \<open>undefined\<close>) exactly when that set is
  empty.
\<close>

theorem room_members_exact:
  assumes "one_id_per_socket evs []" "one_room_per_user evs []"
  shows "set (getRoomUsers (run evs new_server) rid) = joined_not_left evs rid \<and>
         distinct (getRoomUsers (run evs new_server) rid) \<and>
         (getRoom (run evs new_server) rid = None \<longleftrightarrow> joined_not_left evs rid = {})"
proof -
  have "set (member_of no_members) = set (map (\<lambda>j. (fst (snd j), snd (snd j))) [])"
    by (simp add: no_members_def)
  from orderly_run [OF inv_init bindings_init this assms]
  have i: "registry_inv (run evs new_server) (tracked evs no_members)"
    and r: "set (member_of (tracked evs no_members)) =
           set (map (\<lambda>j. (fst (snd j), snd (snd j))) (in_force evs []))"
    by blast+
  from i have i3: "\<And>u. u \<in> set (getRoomUsers (run evs new_server) rid) \<longleftrightarrow>
        (u, rid) \<in> set (member_of (tracked evs no_members))"
    and i4: "\<And>room. rooms (run evs new_server) rid = Some room \<Longrightarrow> room_users room \<noteq> []"
    and i5: "distinct (getRoomUsers (run evs new_server) rid)"
    unfolding registry_inv_def by blast+
  have a: "set (getRoomUsers (run evs new_server) rid) = joined_not_left evs rid"
  proof (intro set_eqI)
    fix u
    have "u \<in> joined_not_left evs rid \<longleftrightarrow>
          (u, rid) \<in> set (map (\<lambda>j. (fst (snd j), snd (snd j))) (in_force evs []))"
      by (force simp: joined_not_left_def)
    with i3 [of u] r show "u \<in> set (getRoomUsers (run evs new_server) rid) \<longleftrightarrow>
        u \<in> joined_not_left evs rid" by simp
  qed
  have "getRoom (run evs new_server) rid = None \<longleftrightarrow> getRoomUsers (run evs new_server) rid = []"
    using i4 by (auto simp: getRoom_def getRoomUsers_def split: option.splits)
  with a i5 show ?thesis by auto
qed

theorem room_members_exact_witness:
  "set (getRoomUsers (run [JoinRoom ''s1'' ''r1'' None 0, JoinRoom ''s2'' ''r1'' (Some ''bob'') 1,
                           LeaveRoom ''s1'', Disconnect ''s2'',
                           JoinRoom ''s3'' ''r1'' (Some ''bob'') 2,
                           JoinRoom ''s1'' ''r2'' None 3] new_server) ''r1'') = {''bob''} \<and>
   joined_not_left [JoinRoom ''s1'' ''r1'' None 0, JoinRoom ''s2'' ''r1'' (Some ''bob'') 1,
                    LeaveRoom ''s1'', Disconnect ''s2'',
                    JoinRoom ''s3'' ''r1'' (Some ''bob'') 2,
                    JoinRoom ''s1'' ''r2'' None 3] ''r1'' = {''bob''}"
proof -
  let ?evs = "[JoinRoom ''s1'' ''r1'' None 0, JoinRoom ''s2'' ''r1'' (Some ''bob'') 1,
               LeaveRoom ''s1'', Disconnect ''s2'', JoinRoom ''s3'' ''r1'' (Some ''bob'') 2,
               JoinRoom ''s1'' ''r2'' None 3]"
  have h1: "one_id_per_socket ?evs []" by (simp add: effectiveUserId_def)
  have h2: "one_room_per_user ?evs []" by (simp add: effectiveUserId_def)
  have e: "getRoomUsers (run ?evs new_server) ''r1'' = [''bob'']"
    by (simp add: server_eval)
  from room_members_exact [OF h1 h2, of "''r1''"] e show ?thesis by simp
qed

theorem room_members_exact_counterexample:
  "getRoomUsers (run [JoinRoom ''s1'' ''r1'' None 0, JoinRoom ''s1'' ''r2'' None 1,
                      Disconnect ''s1''] new_server) ''r1'' = [''s1''] \<and>
   joined_not_left [JoinRoom ''s1'' ''r1'' None 0, JoinRoom ''s1'' ''r2'' None 1,
                    Disconnect ''s1''] ''r1'' = {}"
  by (simp add: server_eval joined_not_left_def)


section \<open>Proofs: leaving twice, disconnecting after leaving\<close>

lemma leave_leave: "handleLeaveRoom sid (fst (handleLeaveRoom sid s)) = (fst (handleLeaveRoom sid s), [])"
  by (auto simp: handleLeaveRoom_def Let_def split: option.splits if_splits prod.splits)

lemma rooms_disc_leave: "rooms (fst (handleDisconnect sid (fst (handleLeaveRoom sid s)))) = rooms (fst (handleLeaveRoom sid s))"
  by (auto simp: handleDisconnect_def leave_leave Let_def split: option.splits if_splits prod.splits)

lemma disc_leave: "handleDisconnect sid (fst (handleLeaveRoom sid s)) =
   (let s1 = fst (handleLeaveRoom sid s) in
    case socketToUser s sid of None \<Rightarrow> (s1, [])
    | Some u \<Rightarrow> if u = [] then (s1, []) else
       (s1\<lparr>socketToUser := (socketToUser s1)(sid := None),
                    userToSocket := (userToSocket s1)(u := None),
                    users := (users s1)(u := None)\<rparr>, []))"
proof -
  have a: "socketToUser (fst (handleLeaveRoom sid s)) = socketToUser s"
    by (auto simp: handleLeaveRoom_def Let_def split: option.splits if_splits prod.splits)
  show ?thesis
    by (simp add: handleDisconnect_def leave_leave a Let_def split: option.splits)
qed


text \<open>
  Claim C7, as amended. A second \<open>leave\<close> in a row changes nothing and emits nothing. A
  \<open>disconnect\<close> after a \<open>leave\<close> emits nothing and leaves the rooms as they are, but
  when the socket is bound to a user it deletes that user's record and both socket
  bindings.
\<close>

theorem leave_twice_disconnect_after_leave:
  "handleLeaveRoom sid (fst (handleLeaveRoom sid s)) = (fst (handleLeaveRoom sid s), []) \<and>
   rooms (fst (handleDisconnect sid (fst (handleLeaveRoom sid s)))) =
     rooms (fst (handleLeaveRoom sid s)) \<and>
   handleDisconnect sid (fst (handleLeaveRoom sid s)) =
     (let s1 = fst (handleLeaveRoom sid s)
      in case socketToUser s sid of
           None \<Rightarrow> (s1, [])
         | Some u \<Rightarrow>
             if u = [] then (s1, [])
             else (s1\<lparr>socketToUser := (socketToUser s1)(sid := None),
                      userToSocket := (userToSocket s1)(u := None),
                      users := (users s1)(u := None)\<rparr>, []))"
  using leave_leave [of sid s] rooms_disc_leave [of sid s] disc_leave [of sid s] by simp

text \<open>
  The claim as first stated fails for disconnect after leave: the user's record is there
  after the leave and gone after the disconnect.
\<close>

theorem disconnect_after_leave_counterexample:
  "getUser (fst (handleDisconnect ''s1'' (fst (handleLeaveRoom ''s1''
       (run [JoinRoom ''s1'' ''r1'' None 0] new_server))))) ''s1'' = None \<and>
   getUser (fst (handleLeaveRoom ''s1'' (run [JoinRoom ''s1'' ''r1'' None 0] new_server))) ''s1'' =
     Some \<lparr>user_userId = ''s1'', user_roomId = None, user_connected = False,
           user_joinedAt = Some 0\<rparr>"
  by (simp add: server_eval)

section \<open>Proofs: routing\<close>

text \<open>
  In every state the handlers reach from the empty server, a record that names a room
  belongs to a user listed in that room; so a registered sender is in some room's member
  list, and a sender whose user is listed nowhere is rejected.
\<close>

lemma listed_join:
  assumes "\<And>u ui r. users s u = Some ui \<Longrightarrow> user_roomId ui = Some r \<Longrightarrow> u \<in> set (getRoomUsers s r)"
    and "users (fst (handleJoinRoom sid rid uid now s)) u = Some ui" "user_roomId ui = Some r"
  shows "u \<in> set (getRoomUsers (fst (handleJoinRoom sid rid uid now s)) r)"
  using assms(2,3) assms(1) [of u _ r]
  by (auto simp: join_users join_getRoomUsers split: if_splits)

lemma listed_leave:
  assumes "\<And>u ui r. users s u = Some ui \<Longrightarrow> user_roomId ui = Some r \<Longrightarrow> u \<in> set (getRoomUsers s r)"
    and "users (fst (handleLeaveRoom sid s)) u = Some ui" "user_roomId ui = Some r"
  shows "u \<in> set (getRoomUsers (fst (handleLeaveRoom sid s)) r)"
proof (cases sid s rule: leave_cases)
  case idle
  then show ?thesis using assms by simp
next
  case (active v vi rid)
  note g = leave_active_getRoomUsers [OF active] and us = leave_active_users [OF active]
  from assms(2,3) have ne: "u \<noteq> v" by (auto simp: us split: if_splits)
  with assms(2) have "users s u = Some ui" by (simp add: us)
  from assms(1) [OF this assms(3)] ne show ?thesis by (auto simp: g)
qed

lemma listed_disconnect:
  assumes "\<And>u ui r. users s u = Some ui \<Longrightarrow> user_roomId ui = Some r \<Longrightarrow> u \<in> set (getRoomUsers s r)"
    and "users (fst (handleDisconnect sid s)) u = Some ui" "user_roomId ui = Some r"
  shows "u \<in> set (getRoomUsers (fst (handleDisconnect sid s)) r)"
proof (cases "\<exists>v. socketToUser s sid = Some v \<and> v \<noteq> []")
  case False
  then have "handleDisconnect sid s = (s, [])"
    by (auto simp: handleDisconnect_def split: option.splits)
  then show ?thesis using assms by simp
next
  case True
  then obtain v where v: "socketToUser s sid = Some v" "v \<noteq> []" by blast
  let ?s1 = "fst (handleLeaveRoom sid s)"
  have d: "users (fst (handleDisconnect sid s)) = (users ?s1)(v := None)"
    "\<And>r. getRoomUsers (fst (handleDisconnect sid s)) r = getRoomUsers ?s1 r"
    using v by (simp_all add: handleDisconnect_def getRoomUsers_def split: prod.splits)
  from assms(2) have "users ?s1 u = Some ui" by (simp add: d split: if_splits)
  from listed_leave [OF assms(1) this assms(3)] show ?thesis by (simp add: d)
qed

lemma listed_run:
  assumes "\<And>u ui r. users s u = Some ui \<Longrightarrow> user_roomId ui = Some r \<Longrightarrow> u \<in> set (getRoomUsers s r)"
    and "users (run evs s) u = Some ui" "user_roomId ui = Some r"
  shows "u \<in> set (getRoomUsers (run evs s) r)"
  using assms
proof (induction evs arbitrary: s u ui r)
  case Nil
  then show ?case by simp
next
  case (Cons e evs)
  have "\<And>u ui r. users (handle e s) u = Some ui \<Longrightarrow> user_roomId ui = Some r \<Longrightarrow>
          u \<in> set (getRoomUsers (handle e s) r)"
  proof (cases e)
    case (JoinRoom sid rid uid now)
    fix u ui r assume "users (handle e s) u = Some ui" "user_roomId ui = Some r"
    then show "u \<in> set (getRoomUsers (handle e s) r)"
      using listed_join [of s sid rid uid now u ui r] Cons.prems(1) JoinRoom by simp
  next
    case (LeaveRoom sid)
    fix u ui r assume "users (handle e s) u = Some ui" "user_roomId ui = Some r"
    then show "u \<in> set (getRoomUsers (handle e s) r)"
      using listed_leave [of s sid u ui r] Cons.prems(1) LeaveRoom by simp
  next
    case (Disconnect sid)
    fix u ui r assume "users (handle e s) u = Some ui" "user_roomId ui = Some r"
    then show "u \<in> set (getRoomUsers (handle e s) r)"
      using listed_disconnect [of s sid u ui r] Cons.prems(1) Disconnect by simp
  qed
  from Cons.IH [OF this] Cons.prems(2,3) show ?case by simp
qed

lemma registered_is_listed:
  assumes "registered (run evs new_server) sid"
  shows "\<exists>u rid. socketToUser (run evs new_server) sid = Some u \<and>
           u \<in> set (getRoomUsers (run evs new_server) rid)"
proof -
  let ?s = "run evs new_server"
  from assms obtain u ui rid where
    u: "socketToUser ?s sid = Some u" "users ?s u = Some ui" "user_roomId ui = Some rid"
    by (cases "socketToUser ?s sid"; simp add: registered_def)
       (metis option.exhaust option.simps(4,5) truthy.elims(2))
  have "u \<in> set (getRoomUsers ?s rid)"
    by (rule listed_run [OF _ u(2,3)]) (simp add: new_server_def)
  with u(1) show ?thesis by blast
qed









lemma sendMessage_keeps:
  "messagesReceived (stats (fst (sendMessage live m sid rid s))) = messagesReceived (stats s)"
  "messagesDelayed (stats (fst (sendMessage live m sid rid s))) = messagesDelayed (stats s)"
  "messageLatencies (fst (sendMessage live m sid rid s)) = messageLatencies s"
  by (auto simp: sendMessage_def Let_def split: option.splits)

lemma queueMessage_keeps:
  "stats (queueMessage rid m s) = stats s"
  "messageLatencies (queueMessage rid m s) = messageLatencies s"
  by (auto simp: queueMessage_def Let_def split: option.splits)

lemma recordLatency_fields:
  "messagesReceived (stats (recordLatency l s)) = messagesReceived (stats s)"
  "messagesDelayed (stats (recordLatency l s)) = messagesDelayed (stats s) + (if l > 100 then 1 else 0)"
  "messageLatencies (recordLatency l s) =
     (if length (messageLatencies s) + 1 > 1000 then tl (messageLatencies s @ [l])
      else messageLatencies s @ [l])"
  by (auto simp: recordLatency_def Let_def)


text \<open>
  Claim C9. For a sender registered to a room: a message of kind \<open>architecture-mode\<close>, or
  of a kind that starts with \<open>sfu-\<close>, is broadcast to the room and the server state,
  statistics included, stays as it was; a message of any other kind adds one to
  \<open>messagesReceived\<close>, one latency sample, and one to \<open>messagesDelayed\<close> when the sample
  is over 100.
\<close>

theorem control_messages_not_counted:
  assumes "socketToUser s sid = Some u" "u \<noteq> []" "users s u = Some ui"
    "user_roomId ui = Some rid" "rid \<noteq> []" "msg_type message = Some ty"
  shows "if ty = ''architecture-mode'' \<or> startsWith ty ''sfu-'' then
           handleSignaling live sid message startTime endTime s =
             Inr (s, [ToRoom sid rid
                (if ty = ''architecture-mode''
                 then ArchitectureModeChanged (msg_architectureMode message) rid
                 else Signaling (message\<lparr>msg_from := Some u, msg_roomId := Some rid\<rparr>))])
         else
           (\<exists>s' out. handleSignaling live sid message startTime endTime s = Inr (s', out) \<and>
              messagesReceived (getStats s') = messagesReceived (getStats s) + 1 \<and>
              messagesDelayed (getStats s') =
                messagesDelayed (getStats s) + (if endTime - startTime > 100 then 1 else 0) \<and>
              messageLatencies s' =
                (if length (messageLatencies s) + 1 > 1000
                 then tl (messageLatencies s @ [endTime - startTime])
                 else messageLatencies s @ [endTime - startTime]))"
proof (cases "ty = ''architecture-mode'' \<or> startsWith ty ''sfu-''")
  case True
  then show ?thesis using assms
    by (auto simp: handleSignaling_def Let_def)
next
  case False
  let ?s1 = "s\<lparr>stats := (stats s)\<lparr>messagesReceived := messagesReceived (stats s) + 1,
                                  lastMessageTime := startTime\<rparr>\<rparr>"
  let ?st = "message\<lparr>msg_from := Some u, msg_roomId := Some rid\<rparr>"
  let ?r = "(if ty = ''ice-candidate'' then (queueMessage rid ?st ?s1, [])
            else sendMessage live ?st sid rid ?s1)"
  have hs: "handleSignaling live sid message startTime endTime s =
              Inr (recordLatency (endTime - startTime) (fst ?r), snd ?r)"
    using False assms by (simp add: handleSignaling_def Let_def split: prod.splits)
  have a: "messagesReceived (stats (fst ?r)) = messagesReceived (stats s) + 1"
    "messagesDelayed (stats (fst ?r)) = messagesDelayed (stats s)"
    "messageLatencies (fst ?r) = messageLatencies s"
    by (simp_all add: sendMessage_keeps queueMessage_keeps)
  show ?thesis
    using False by (simp only: hs if_False) (simp add: getStats_def recordLatency_fields a)
qed

theorem control_messages_not_counted_witness:
  "handleSignaling (\<lambda>x. True) ''s1''
     \<lparr>msg_type = Some ''sfu-publish'', msg_from = None, msg_to = None, msg_roomId = None,
      msg_sdp = None, msg_candidate = None, msg_error = None, msg_architectureMode = None\<rparr>
     5 6 (run [JoinRoom ''s1'' ''r1'' None 0] new_server) =
   Inr (run [JoinRoom ''s1'' ''r1'' None 0] new_server,
        [ToRoom ''s1'' ''r1'' (Signaling
           \<lparr>msg_type = Some ''sfu-publish'', msg_from = Some ''s1'', msg_to = None,
            msg_roomId = Some ''r1'', msg_sdp = None, msg_candidate = None, msg_error = None,
            msg_architectureMode = None\<rparr>)])"
proof -
  let ?s = "run [JoinRoom ''s1'' ''r1'' None 0] new_server"
  let ?ui = "\<lparr>user_userId = ''s1'', user_roomId = Some ''r1'', user_connected = True,
              user_joinedAt = Some 0\<rparr>"
  let ?m = "\<lparr>msg_type = Some ''sfu-publish'', msg_from = None, msg_to = None, msg_roomId = None,
      msg_sdp = None, msg_candidate = None, msg_error = None, msg_architectureMode = None\<rparr>"
  have h1: "socketToUser ?s ''s1'' = Some ''s1''" by (simp add: server_eval)
  have h2: "''s1'' \<noteq> []" by simp
  have h3: "users ?s ''s1'' = Some ?ui" by (simp add: server_eval)
  have h4: "user_roomId ?ui = Some ''r1''" by simp
  have h5: "''r1'' \<noteq> []" by simp
  have h6: "msg_type ?m = Some ''sfu-publish''" by simp
  from control_messages_not_counted [OF h1 h2 h3 h4 h5 h6, of "\<lambda>x. True" 5 6]
  show ?thesis by (simp add: startsWith_def)
qed


section \<open>Proofs: topology\<close>

text \<open>
  Claim C4, evaluated where the code departs from it. A client in auto mode with SFU options
  and \<open>meshToSFUThreshold: 0\<close> stores the threshold 0 and starts in mesh. Alone in its room
  (count 1), it receives user-joined: the count becomes 2, which is not below the configured
  threshold, yet nothing is switched and the current mode stays mesh.
\<close>

theorem threshold_zero_stays_mesh:
  "opt_meshToSFUThreshold (options
     (new_client \<lparr>architectureMode = Given Auto, meshToSFUThreshold = Given 0,
                  sfuOptions = Given ''wss://sfu.example.com''\<rparr>)) = Some 0 \<and>
   userJoinedCount None
     ((new_client \<lparr>architectureMode = Given Auto, meshToSFUThreshold = Given 0,
                   sfuOptions = Given ''wss://sfu.example.com''\<rparr>)
        \<lparr>roomId := Some ''r1'', userId := Some ''u1'', roomUserCount := 1\<rparr>) =
   ((new_client \<lparr>architectureMode = Given Auto, meshToSFUThreshold = Given 0,
                  sfuOptions = Given ''wss://sfu.example.com''\<rparr>)
        \<lparr>roomId := Some ''r1'', userId := Some ''u1'', roomUserCount := 2\<rparr>, []) \<and>
   currentArchitectureMode (fst (userJoinedCount None
     ((new_client \<lparr>architectureMode = Given Auto, meshToSFUThreshold = Given 0,
                   sfuOptions = Given ''wss://sfu.example.com''\<rparr>)
        \<lparr>roomId := Some ''r1'', userId := Some ''u1'', roomUserCount := 1\<rparr>))) = Mesh \<and>
   sfuAdapter
     (new_client \<lparr>architectureMode = Given Auto, meshToSFUThreshold = Given 0,
                  sfuOptions = Given ''wss://sfu.example.com''\<rparr>) = Some ''wss://sfu.example.com''"
  by (simp add: new_client_def userJoinedCount_def checkAndSwitchArchitecture_def
        threshold_def Let_def)


text \<open>
  Claim C8, evaluated where the code departs from it. A client in auto mode with threshold
  3 and no SFU options, in a room of two with a mesh connection to the other user, receives
  user-joined: it never asks for an SFU connection, but it closes both mesh connections,
  sets the current mode to sfu and announces the mode to the room.
\<close>

theorem promotion_without_sfu_endpoint:
  "userJoinedCount None
     ((new_client \<lparr>architectureMode = Given Auto, meshToSFUThreshold = Given 3, sfuOptions = Absent\<rparr>)
        \<lparr>roomId := Some ''r1'', userId := Some ''u1'', roomUserCount := 2,
         multiPeerMode := True, peerConnections := [(''u2'', 4)], remoteStreams := [''u2''],
         peerConnection := Some 1\<rparr>) =
   ((new_client \<lparr>architectureMode = Given Auto, meshToSFUThreshold = Given 3, sfuOptions = Absent\<rparr>)
        \<lparr>roomId := Some ''r1'', userId := Some ''u1'', roomUserCount := 3,
         multiPeerMode := True, peerConnections := [], remoteStreams := [],
         peerConnection := None, currentArchitectureMode := Sfu\<rparr>,
    [PcClose 4, PcClose 1, EmitSignaling (architecture_mode_message Sfu (Some ''r1''))])"
  by (simp add: new_client_def userJoinedCount_def checkAndSwitchArchitecture_def
        switchArchitecture_def threshold_def Let_def)


section \<open>Proofs: quality\<close>

lemma targetQuality_spec: "targetQuality ns = spec_tier ns"
  by (cases "bandwidth_tier (bandwidth ns)")
     (auto simp: targetQuality_def spec_tier_def bandwidth_tier_def Let_def split: if_splits)


text \<open>
  Claim C5. The tier computed from a network sample is the tier of the specification's
  rules, a function of the sample alone; when the client has a local stream,
  \<open>adjustMediaQuality\<close> makes it the current tier; for rtt 400, loss 1 and bandwidth
  3000000 it is low.
\<close>

theorem quality_tier_of_sample:
  "targetQuality ns = spec_tier ns \<and>
   (localStream c \<noteq> None \<longrightarrow>
      currentQuality (fst (adjustMediaQuality c)) = spec_tier (networkStats c)) \<and>
   spec_tier \<lparr>bandwidth = 3000000, packetLoss = 1, rtt = 400, lastUpdate = t\<rparr> = Low"
  by (auto simp: targetQuality_spec adjustMediaQuality_def Let_def spec_tier_def split: option.splits)

theorem quality_tier_of_sample_witness:
  "currentQuality (fst (adjustMediaQuality
      ((new_client \<lparr>architectureMode = Absent, meshToSFUThreshold = Absent, sfuOptions = Absent\<rparr>)
         \<lparr>localStream := Some 0,
          networkStats := \<lparr>bandwidth = 3000000, packetLoss = 1, rtt = 400, lastUpdate = 5000\<rparr>\<rparr>))) = Low"
proof -
  let ?c = "(new_client \<lparr>architectureMode = Absent, meshToSFUThreshold = Absent, sfuOptions = Absent\<rparr>)
         \<lparr>localStream := Some 0,
          networkStats := \<lparr>bandwidth = 3000000, packetLoss = 1, rtt = 400, lastUpdate = 5000\<rparr>\<rparr>"
  have h: "localStream ?c \<noteq> None" by simp
  have n: "networkStats ?c = \<lparr>bandwidth = 3000000, packetLoss = 1, rtt = 400, lastUpdate = 5000\<rparr>"
    by simp
  from quality_tier_of_sample [of _ ?c 5000] h
  have "currentQuality (fst (adjustMediaQuality ?c)) = spec_tier (networkStats ?c)"
    and "spec_tier \<lparr>bandwidth = 3000000, packetLoss = 1, rtt = 400, lastUpdate = 5000\<rparr> = Low"
    by blast+
  then show ?thesis by (simp only: n)
qed


section \<open>Proofs: duplicate suppression\<close>

lemma handle_dup:
  assumes "\<not> (currentArchitectureMode c = Sfu \<and> sfuAdapter c \<noteq> None \<and>
              (case msg_type message of
                 None \<Rightarrow> True
               | Some ty \<Rightarrow> startsWith ty ''sfu-'' \<or> ty = ''answer'' \<or> ty = ''ice-candidate''))"
    and "getMessageId message \<in> set (processedSignalingIds c)"
  shows "client_handleSignaling message c = (c, Duplicate)"
proof -
  from assms(1) have v:
    "((currentArchitectureMode c = Sfu \<and> sfuAdapter c \<noteq> None) \<and> msg_type message = None) = False"
    "((currentArchitectureMode c = Sfu \<and> sfuAdapter c \<noteq> None) \<and>
       (case msg_type message of
          None \<Rightarrow> False
        | Some ty \<Rightarrow> startsWith ty ''sfu-'' \<or> ty = ''answer'' \<or> ty = ''ice-candidate'')) = False"
    by (cases "msg_type message"; simp)+
  show ?thesis
    unfolding client_handleSignaling_def Let_def v using assms(2) by simp
qed

lemma handle_new:
  assumes "\<not> (currentArchitectureMode c = Sfu \<and> sfuAdapter c \<noteq> None \<and>
              (case msg_type message of
                 None \<Rightarrow> True
               | Some ty \<Rightarrow> startsWith ty ''sfu-'' \<or> ty = ''answer'' \<or> ty = ''ice-candidate''))"
    and "getMessageId message \<notin> set (processedSignalingIds c)"
  shows "fst (client_handleSignaling message c) =
           c\<lparr>processedSignalingIds :=
               (if length (processedSignalingIds c) \<ge> 1000 then []
                else processedSignalingIds c @ [getMessageId message]),
             client_stats := (client_stats c)\<lparr>c_messagesReceived :=
                c_messagesReceived (client_stats c) + 1\<rparr>\<rparr>"
    and "snd (client_handleSignaling message c) \<noteq> Duplicate"
proof -
  let ?c1 = "c\<lparr>processedSignalingIds :=
               (if length (processedSignalingIds c @ [getMessageId message]) > 1000 then []
                else processedSignalingIds c @ [getMessageId message]),
             client_stats := (client_stats c)\<lparr>c_messagesReceived :=
                c_messagesReceived (client_stats c) + 1\<rparr>\<rparr>"
  from assms(1) have v:
    "((currentArchitectureMode c = Sfu \<and> sfuAdapter c \<noteq> None) \<and> msg_type message = None) = False"
    "((currentArchitectureMode c = Sfu \<and> sfuAdapter c \<noteq> None) \<and>
       (case msg_type message of
          None \<Rightarrow> False
        | Some ty \<Rightarrow> startsWith ty ''sfu-'' \<or> ty = ''answer'' \<or> ty = ''ice-candidate'')) = False"
    by (cases "msg_type message"; simp)+
  have e: "client_handleSignaling message c =
     (if multiPeerMode ?c1 \<and> truthy (msg_from message) then
         (case map_of (peerConnections ?c1)
                 (case msg_from message of None \<Rightarrow> [] | Some f \<Rightarrow> f) of
            None \<Rightarrow> (?c1, NoPeerConnection)
          | Some pc \<Rightarrow> (?c1, ToPeer pc))
       else
         (case peerConnection ?c1 of
            None \<Rightarrow> (?c1, NoPeerConnection)
          | Some pc \<Rightarrow> (?c1, ToPeer pc)))"
    unfolding client_handleSignaling_def Let_def v using assms(2) by simp
  have l: "(length (processedSignalingIds c @ [getMessageId message]) > 1000) =
           (length (processedSignalingIds c) \<ge> 1000)" by auto
  show "fst (client_handleSignaling message c) =
           c\<lparr>processedSignalingIds :=
               (if length (processedSignalingIds c) \<ge> 1000 then []
                else processedSignalingIds c @ [getMessageId message]),
             client_stats := (client_stats c)\<lparr>c_messagesReceived :=
                c_messagesReceived (client_stats c) + 1\<rparr>\<rparr>"
    unfolding e l by (simp split: option.splits)
  show "snd (client_handleSignaling message c) \<noteq> Duplicate"
    unfolding e by (simp split: option.splits)
qed

lemma getMessageId_parts:
  "getMessageId message =
     (case msg_type message of None \<Rightarrow> ''undefined'' | Some ty \<Rightarrow> ty) @ ''-'' @
     (case msg_from message of None \<Rightarrow> [] | Some f \<Rightarrow> f) @ ''-'' @
     take 50 (case msg_sdp message of None \<Rightarrow> [] | Some sd \<Rightarrow> sd) @
     take 50 (case msg_candidate message of None \<Rightarrow> [] | Some cd \<Rightarrow> cd)"
  by (simp add: getMessageId_def Let_def split: option.splits)

lemma not_among_x_strings:
  "getMessageId \<lparr>msg_type = Some ''offer'', msg_from = Some ''u2'', msg_to = None,
      msg_roomId = Some ''r1'', msg_sdp = Some ''v=0;o=- 46117 2 IN IP4 192.0.2.1;s=-;t=0 0;m=audio first'',
      msg_candidate = None, msg_error = None, msg_architectureMode = None\<rparr>
   \<notin> set (map (\<lambda>n. replicate n CHR ''x'') [0..<1000])"
proof
  let ?m = "\<lparr>msg_type = Some ''offer'', msg_from = Some ''u2'', msg_to = None,
      msg_roomId = Some ''r1'', msg_sdp = Some ''v=0;o=- 46117 2 IN IP4 192.0.2.1;s=-;t=0 0;m=audio first'',
      msg_candidate = None, msg_error = None, msg_architectureMode = None\<rparr>"
  assume "getMessageId ?m \<in> set (map (\<lambda>n. replicate n CHR ''x'') [0..<1000])"
  then obtain n where "getMessageId ?m = replicate n CHR ''x''" by auto
  then have "set (getMessageId ?m) = set (replicate n CHR ''x'')" by simp
  moreover have "CHR ''o'' \<in> set (getMessageId ?m)" by (simp add: getMessageId_def)
  ultimately have "CHR ''o'' \<in> set (replicate n CHR ''x'')" by simp
  then show False by simp
qed


text \<open>
  Claim C10. For a message that the client does not hand to the SFU adapter: its id is its
  type, its sender and the first 50 characters of its sdp and of its candidate; a message
  whose id is in the set of processed ids is dropped as a duplicate and changes nothing; a
  message with a new id is processed and counted and its id is added, upon which the set is
  emptied in its entirety if it then holds more than 1000 ids; so the set never holds more
  than 1000 ids, and the message that caused the clear is processed again when it arrives
  next.
\<close>

theorem duplicate_suppression_bounded:
  assumes "\<not> (currentArchitectureMode c = Sfu \<and> sfuAdapter c \<noteq> None \<and>
              (case msg_type message of
                 None \<Rightarrow> True
               | Some ty \<Rightarrow> startsWith ty ''sfu-'' \<or> ty = ''answer'' \<or> ty = ''ice-candidate''))"
    and "c' = fst (client_handleSignaling message c)"
  shows "getMessageId message =
           (case msg_type message of None \<Rightarrow> ''undefined'' | Some ty \<Rightarrow> ty) @ ''-'' @
           (case msg_from message of None \<Rightarrow> [] | Some f \<Rightarrow> f) @ ''-'' @
           take 50 (case msg_sdp message of None \<Rightarrow> [] | Some sd \<Rightarrow> sd) @
           take 50 (case msg_candidate message of None \<Rightarrow> [] | Some cd \<Rightarrow> cd) \<and>
         (getMessageId message \<in> set (processedSignalingIds c) \<longrightarrow>
            client_handleSignaling message c = (c, Duplicate)) \<and>
         (getMessageId message \<notin> set (processedSignalingIds c) \<longrightarrow>
            snd (client_handleSignaling message c) \<noteq> Duplicate \<and>
            c_messagesReceived (client_stats c') = c_messagesReceived (client_stats c) + 1 \<and>
            processedSignalingIds c' =
              (if length (processedSignalingIds c) \<ge> 1000 then []
               else processedSignalingIds c @ [getMessageId message])) \<and>
         (length (processedSignalingIds c) \<le> 1000 \<longrightarrow> length (processedSignalingIds c') \<le> 1000) \<and>
         (getMessageId message \<notin> set (processedSignalingIds c) \<and>
          length (processedSignalingIds c) \<ge> 1000 \<longrightarrow>
            snd (client_handleSignaling message c') \<noteq> Duplicate \<and>
            c_messagesReceived (client_stats (fst (client_handleSignaling message c'))) =
              c_messagesReceived (client_stats c) + 2)"
proof (cases "getMessageId message \<in> set (processedSignalingIds c)")
  case True
  from handle_dup [OF assms(1) True] show ?thesis
    using True getMessageId_parts [of message] by (simp add: assms(2))
next
  case False
  note n = handle_new [OF assms(1) False]
  have c': "c' = c\<lparr>processedSignalingIds :=
               (if length (processedSignalingIds c) \<ge> 1000 then []
                else processedSignalingIds c @ [getMessageId message]),
             client_stats := (client_stats c)\<lparr>c_messagesReceived :=
                c_messagesReceived (client_stats c) + 1\<rparr>\<rparr>"
    using n(1) by (simp add: assms(2))
  have again: "length (processedSignalingIds c) \<ge> 1000 \<Longrightarrow>
      snd (client_handleSignaling message c') \<noteq> Duplicate \<and>
      c_messagesReceived (client_stats (fst (client_handleSignaling message c'))) =
        c_messagesReceived (client_stats c) + 2"
  proof -
    assume big: "length (processedSignalingIds c) \<ge> 1000"
    have a: "\<not> (currentArchitectureMode c' = Sfu \<and> sfuAdapter c' \<noteq> None \<and>
              (case msg_type message of
                 None \<Rightarrow> True
               | Some ty \<Rightarrow> startsWith ty ''sfu-'' \<or> ty = ''answer'' \<or> ty = ''ice-candidate''))"
      using assms(1) by (simp add: c')
    have b: "getMessageId message \<notin> set (processedSignalingIds c')"
      using big by (simp add: c')
    from handle_new [OF a b] show ?thesis by (simp add: c')
  qed
  have rest: "snd (client_handleSignaling message c) \<noteq> Duplicate \<and>
            c_messagesReceived (client_stats c') = c_messagesReceived (client_stats c) + 1 \<and>
            processedSignalingIds c' =
              (if length (processedSignalingIds c) \<ge> 1000 then []
               else processedSignalingIds c @ [getMessageId message])"
    using n(2) by (simp add: c')
  have bnd: "length (processedSignalingIds c) \<le> 1000 \<longrightarrow> length (processedSignalingIds c') \<le> 1000"
    by (simp add: c')
  from False rest bnd again getMessageId_parts [of message] show ?thesis by blast
qed

theorem duplicate_suppression_bounded_witness:
  "client_handleSignaling
     \<lparr>msg_type = Some ''offer'', msg_from = Some ''u2'', msg_to = None,
      msg_roomId = Some ''r1'', msg_sdp = Some ''v=0;o=- 46117 2 IN IP4 192.0.2.1;s=-;t=0 0;m=audio second'',
      msg_candidate = None, msg_error = None, msg_architectureMode = None\<rparr>
     (fst (client_handleSignaling
        \<lparr>msg_type = Some ''offer'', msg_from = Some ''u2'', msg_to = None,
      msg_roomId = Some ''r1'', msg_sdp = Some ''v=0;o=- 46117 2 IN IP4 192.0.2.1;s=-;t=0 0;m=audio first'',
      msg_candidate = None, msg_error = None, msg_architectureMode = None\<rparr>
        (new_client \<lparr>architectureMode = Given Sfu, meshToSFUThreshold = Absent,
        sfuOptions = Given ''wss://sfu.example.com''\<rparr>))) =
   (fst (client_handleSignaling
        \<lparr>msg_type = Some ''offer'', msg_from = Some ''u2'', msg_to = None,
      msg_roomId = Some ''r1'', msg_sdp = Some ''v=0;o=- 46117 2 IN IP4 192.0.2.1;s=-;t=0 0;m=audio first'',
      msg_candidate = None, msg_error = None, msg_architectureMode = None\<rparr>
        (new_client \<lparr>architectureMode = Given Sfu, meshToSFUThreshold = Absent,
        sfuOptions = Given ''wss://sfu.example.com''\<rparr>)),
    Duplicate) \<and>
   snd (client_handleSignaling
     \<lparr>msg_type = Some ''offer'', msg_from = Some ''u3'', msg_to = None,
      msg_roomId = Some ''r1'', msg_sdp = Some ''v=0;o=- 46117 2 IN IP4 192.0.2.1;s=-;t=0 0;m=audio first'',
      msg_candidate = None, msg_error = None, msg_architectureMode = None\<rparr>
     (fst (client_handleSignaling
        \<lparr>msg_type = Some ''offer'', msg_from = Some ''u2'', msg_to = None,
      msg_roomId = Some ''r1'', msg_sdp = Some ''v=0;o=- 46117 2 IN IP4 192.0.2.1;s=-;t=0 0;m=audio first'',
      msg_candidate = None, msg_error = None, msg_architectureMode = None\<rparr>
        (new_client \<lparr>architectureMode = Given Sfu, meshToSFUThreshold = Absent,
        sfuOptions = Given ''wss://sfu.example.com''\<rparr>)))) \<noteq> Duplicate \<and>
   snd (client_handleSignaling
     \<lparr>msg_type = Some ''offer'', msg_from = Some ''u2'', msg_to = None,
      msg_roomId = Some ''r1'', msg_sdp = Some ''v=0;o=- 46117 2 IN IP4 192.0.2.1;s=-;t=0 0;m=audio first'',
      msg_candidate = None, msg_error = None, msg_architectureMode = None\<rparr>
     (fst (client_handleSignaling
       \<lparr>msg_type = Some ''offer'', msg_from = Some ''u2'', msg_to = None,
      msg_roomId = Some ''r1'', msg_sdp = Some ''v=0;o=- 46117 2 IN IP4 192.0.2.1;s=-;t=0 0;m=audio first'',
      msg_candidate = None, msg_error = None, msg_architectureMode = None\<rparr>
       ((new_client \<lparr>architectureMode = Absent, meshToSFUThreshold = Absent, sfuOptions = Absent\<rparr>)
        \<lparr>processedSignalingIds := map (\<lambda>n. replicate n CHR ''x'') [0..<1000]\<rparr>)))) \<noteq> Duplicate"
proof -
  let ?ma = "\<lparr>msg_type = Some ''offer'', msg_from = Some ''u2'', msg_to = None,
      msg_roomId = Some ''r1'', msg_sdp = Some ''v=0;o=- 46117 2 IN IP4 192.0.2.1;s=-;t=0 0;m=audio first'',
      msg_candidate = None, msg_error = None, msg_architectureMode = None\<rparr>"
  let ?mb = "\<lparr>msg_type = Some ''offer'', msg_from = Some ''u2'', msg_to = None,
      msg_roomId = Some ''r1'', msg_sdp = Some ''v=0;o=- 46117 2 IN IP4 192.0.2.1;s=-;t=0 0;m=audio second'',
      msg_candidate = None, msg_error = None, msg_architectureMode = None\<rparr>"
  let ?mc = "\<lparr>msg_type = Some ''offer'', msg_from = Some ''u3'', msg_to = None,
      msg_roomId = Some ''r1'', msg_sdp = Some ''v=0;o=- 46117 2 IN IP4 192.0.2.1;s=-;t=0 0;m=audio first'',
      msg_candidate = None, msg_error = None, msg_architectureMode = None\<rparr>"
  let ?start = "(new_client \<lparr>architectureMode = Given Sfu, meshToSFUThreshold = Absent,
        sfuOptions = Given ''wss://sfu.example.com''\<rparr>)"
  let ?once = "fst (client_handleSignaling ?ma ?start)"
  let ?full = "(new_client \<lparr>architectureMode = Absent, meshToSFUThreshold = Absent, sfuOptions = Absent\<rparr>)
        \<lparr>processedSignalingIds := map (\<lambda>n. replicate n CHR ''x'') [0..<1000]\<rparr>"
  have mode: "currentArchitectureMode ?start = Sfu" "sfuAdapter ?start \<noteq> None"
    by (simp_all add: new_client_def Let_def)
  have h0: "\<not> (currentArchitectureMode ?start = Sfu \<and> sfuAdapter ?start \<noteq> None \<and>
              (case msg_type ?ma of
                 None \<Rightarrow> True
               | Some ty \<Rightarrow> startsWith ty ''sfu-'' \<or> ty = ''answer'' \<or> ty = ''ice-candidate''))"
    by (simp add: startsWith_def)
  have ids: "processedSignalingIds ?once = [getMessageId ?ma]"
    using handle_new(1) [OF h0] by (simp add: new_client_def)
  have keep: "currentArchitectureMode ?once = Sfu" "sfuAdapter ?once \<noteq> None"
    using handle_new(1) [OF h0] mode by (simp_all add: new_client_def)
  have h2: "\<not> (currentArchitectureMode ?once = Sfu \<and> sfuAdapter ?once \<noteq> None \<and>
              (case msg_type ?mb of
                 None \<Rightarrow> True
               | Some ty \<Rightarrow> startsWith ty ''sfu-'' \<or> ty = ''answer'' \<or> ty = ''ice-candidate''))"
    by (simp add: startsWith_def)
  have h3: "\<not> (currentArchitectureMode ?once = Sfu \<and> sfuAdapter ?once \<noteq> None \<and>
              (case msg_type ?mc of
                 None \<Rightarrow> True
               | Some ty \<Rightarrow> startsWith ty ''sfu-'' \<or> ty = ''answer'' \<or> ty = ''ice-candidate''))"
    by (simp add: startsWith_def)
  have d2: "getMessageId ?mb \<in> set (processedSignalingIds ?once)"
    unfolding ids by (simp add: getMessageId_def)
  have d3: "getMessageId ?mc \<notin> set (processedSignalingIds ?once)"
    unfolding ids by (simp add: getMessageId_def)
  from duplicate_suppression_bounded [OF h2 refl] d2
  have first: "client_handleSignaling ?mb ?once = (?once, Duplicate)" by blast
  from duplicate_suppression_bounded [OF h3 refl] d3
  have second: "snd (client_handleSignaling ?mc ?once) \<noteq> Duplicate" by blast
  have h: "\<not> (currentArchitectureMode ?full = Sfu \<and> sfuAdapter ?full \<noteq> None \<and>
              (case msg_type ?ma of
                 None \<Rightarrow> True
               | Some ty \<Rightarrow> startsWith ty ''sfu-'' \<or> ty = ''answer'' \<or> ty = ''ice-candidate''))"
    by (simp add: new_client_def)
  have idc: "processedSignalingIds ?full = map (\<lambda>n. replicate n CHR ''x'') [0..<1000]" by simp
  have new: "getMessageId ?ma \<notin> set (processedSignalingIds ?full)"
    unfolding idc by (rule not_among_x_strings)
  have full: "length (processedSignalingIds ?full) \<ge> 1000" unfolding idc by simp
  from duplicate_suppression_bounded [OF h refl] new full
  have third: "snd (client_handleSignaling ?ma (fst (client_handleSignaling ?ma ?full))) \<noteq> Duplicate"
    by blast
  from first second third show ?thesis by blast
qed


section \<open>Proofs: the connection pool\<close>

text \<open>
  What holds of the pool after any calls: \<open>active\<close> is the size of the active set, no
  pending-close connection is in the active set, and active plus pending-close never
  exceeds created.
\<close>

lemma length_removeAll_distinct:
  "distinct xs \<Longrightarrow> x \<in> set xs \<Longrightarrow> Suc (length (removeAll x xs)) = length xs"
  by (induction xs) auto

lemma length_delete_le: "length (AList.delete k al) \<le> length al"
  by (induction al) auto

lemma fst_set_delete: "fst ` set (AList.delete k al) = fst ` set al - {k}"
  by (induction al) auto

lemma inv_new: "pool_inv (new_pool a b)"
  by (simp add: pool_inv_def new_pool_def)


lemma inv_acquire: "pool_inv p \<Longrightarrow> pool_inv (pool_step (Acquire h k cfg) p)"
proof -
  assume i: "pool_inv p"
  then have fresh: "constructed p \<notin> set (activeConnections p)"
    "constructed p \<notin> fst ` set (pendingClose p)"
    by (auto simp: pool_inv_def)
  show ?thesis
  proof (cases h)
    case False
    then show ?thesis using i by (simp add: pool_inv_def acquire_def Let_def)
  next
    case True
    then show ?thesis using i fresh
      by (simp add: pool_inv_def acquire_def Let_def) (auto simp: less_Suc_eq)
  qed
qed

lemma length_update_new:
  "k \<notin> fst ` set al \<Longrightarrow> length (AList.update k v al) = Suc (length al)"
  by (induction al) auto

lemma inv_release: "pool_inv p \<Longrightarrow> pool_inv (pool_step (Release pc) p)"
proof (cases "pc \<in> set (activeConnections p)")
  case False
  assume "pool_inv p"
  with False show ?thesis by (simp add: release_def)
next
  case True
  assume i: "pool_inv p"
  then have np: "pc \<notin> fst ` set (pendingClose p)" using True by (auto simp: pool_inv_def)
  from i have d: "distinct (activeConnections p)" by (simp add: pool_inv_def)
  have l: "Suc (length (removeAll pc (activeConnections p))) = length (activeConnections p)"
    using d True by (rule length_removeAll_distinct)
  have s: "fst (release pc p) =
     p\<lparr>activeConnections := removeAll pc (activeConnections p),
       pool_stats := (pool_stats p)\<lparr>released := released (pool_stats p) + 1,
           active := int (length (removeAll pc (activeConnections p)))\<rparr>,
       timers := Suc (timers p),
       pendingClose := AList.update pc (Suc (timers p)) (pendingClose p)\<rparr>"
    using True by (simp add: release_def Let_def)
  have c1: "distinct (removeAll pc (activeConnections p))" using d by (simp add: distinct_removeAll)
  have c2: "distinct (map fst (AList.update pc (Suc (timers p)) (pendingClose p)))"
    using i by (simp add: pool_inv_def AList.distinct_update)
  have c3: "set (removeAll pc (activeConnections p)) \<inter>
            fst ` set (AList.update pc (Suc (timers p)) (pendingClose p)) = {}"
    using i by (auto simp: pool_inv_def AList.dom_update)
  have c4: "\<forall>q \<in> set (removeAll pc (activeConnections p)) \<union>
            fst ` set (AList.update pc (Suc (timers p)) (pendingClose p)). q < constructed p"
    using i True by (auto simp: pool_inv_def AList.dom_update)
  have c5: "int (length (removeAll pc (activeConnections p))) +
            int (length (AList.update pc (Suc (timers p)) (pendingClose p)))
            \<le> created (pool_stats p)"
  proof -
    have "length (removeAll pc (activeConnections p)) +
          length (AList.update pc (Suc (timers p)) (pendingClose p)) =
          length (activeConnections p) + length (pendingClose p)"
      using l by (simp add: length_update_new [OF np])
    moreover from i have "int (length (activeConnections p)) + int (length (pendingClose p))
        \<le> created (pool_stats p)" by (simp add: pool_inv_def)
    ultimately show ?thesis by linarith
  qed
  show ?thesis
    unfolding pool_step.simps s pool_inv_def using c1 c2 c3 c4 c5 by simp
qed

lemma inv_closeTimerFires: "pool_inv p \<Longrightarrow> pool_inv (pool_step (CloseTimerFires pc) p)"
  using length_delete_le [of pc "pendingClose p"]
  by (auto simp: pool_inv_def closeTimerFires_def fst_set_delete AList.distinct_delete)

lemma inv_clear: "pool_inv p \<Longrightarrow> pool_inv (pool_step Clear p)"
  by (simp add: pool_inv_def clear_def)

lemma inv_releaseImmediate: "pool_inv p \<Longrightarrow> pool_inv (pool_step (ReleaseImmediate pc) p)"
proof -
  assume i: "pool_inv p"
  define pending where "pending = fst (case map_of (pendingClose p) pc of
               None \<Rightarrow> (pendingClose p, [])
             | Some timer \<Rightarrow>
                 if timer \<noteq> 0 then (AList.delete pc (pendingClose p), [ClearTimeout timer])
                 else (pendingClose p, []))"
  define conns where "conns = removeAll pc (activeConnections p)"
  have pd: "pending = pendingClose p \<or> pending = AList.delete pc (pendingClose p)"
    unfolding pending_def by (simp split: option.splits)
  from i have i2: "distinct (activeConnections p)" and i3: "distinct (map fst (pendingClose p))"
    and i4: "set (activeConnections p) \<inter> fst ` set (pendingClose p) = {}"
    and i5: "\<forall>q \<in> set (activeConnections p) \<union> fst ` set (pendingClose p). q < constructed p"
    and i6: "int (length (activeConnections p)) + int (length (pendingClose p))
               \<le> created (pool_stats p)"
    by (simp_all add: pool_inv_def)
  have a1: "length pending \<le> length (pendingClose p)"
    using pd length_delete_le [of pc "pendingClose p"] by (elim disjE) simp_all
  have a2: "fst ` set pending \<subseteq> fst ` set (pendingClose p)"
    using pd by (elim disjE) (simp_all add: fst_set_delete)
  have a3: "distinct (map fst pending)"
    using pd i3 by (elim disjE) (simp_all add: AList.distinct_delete)
  have b1: "length conns \<le> length (activeConnections p)"
    unfolding conns_def by (simp add: removeAll_filter_not_eq)
  have b2: "set conns \<subseteq> set (activeConnections p)" unfolding conns_def by auto
  have b3: "distinct conns" unfolding conns_def using i2 by (simp add: distinct_removeAll)
  have s: "fst (releaseImmediate pc p) =
     p\<lparr>pendingClose := pending,
       activeConnections := conns,
       pool_stats := (pool_stats p)\<lparr>released := released (pool_stats p) + 1,
                                   active := int (length conns)\<rparr>\<rparr>"
    unfolding pending_def conns_def
    by (simp add: releaseImmediate_def Let_def split: prod.splits)
  have c3: "set conns \<inter> fst ` set pending = {}" using a2 b2 i4 by blast
  have c4: "\<forall>q \<in> set conns \<union> fst ` set pending. q < constructed p" using a2 b2 i5 by blast
  have c5: "int (length conns) + int (length pending) \<le> created (pool_stats p)"
    using a1 b1 i6 by linarith
  show ?thesis
    unfolding pool_step.simps s pool_inv_def using a3 b3 c3 c4 c5 by simp
qed

lemma inv_pool_step: "pool_inv p \<Longrightarrow> pool_inv (pool_step c p)"
proof (cases c)
  case (Acquire h k cfg)
  assume "pool_inv p"
  then show ?thesis unfolding Acquire by (rule inv_acquire)
next
  case (Release pc)
  assume "pool_inv p"
  then show ?thesis unfolding Release by (rule inv_release)
next
  case (ReleaseImmediate pc)
  assume "pool_inv p"
  then show ?thesis unfolding ReleaseImmediate by (rule inv_releaseImmediate)
next
  case (CloseTimerFires pc)
  assume "pool_inv p"
  then show ?thesis unfolding CloseTimerFires by (rule inv_closeTimerFires)
next
  case Clear
  assume "pool_inv p"
  then show ?thesis unfolding Clear by (rule inv_clear)
qed

lemma inv_pool_run: "pool_inv p \<Longrightarrow> pool_inv (pool_run cs p)"
proof (induction cs arbitrary: p)
  case Nil
  then show ?case by simp
next
  case (Cons c cs)
  from Cons.prems have "pool_inv (pool_step c p)" by (rule inv_pool_step)
  from Cons.IH [OF this] show ?case by simp
qed

lemma pool_bounds:
  "active (pool_getStats (pool_run cs (new_pool a b))) =
     int (length (activeConnections (pool_run cs (new_pool a b)))) \<and>
   set (activeConnections (pool_run cs (new_pool a b))) \<inter>
     fst ` set (pendingClose (pool_run cs (new_pool a b))) = {} \<and>
   active (pool_getStats (pool_run cs (new_pool a b))) +
     int (stat_pendingClose (pool_getStats (pool_run cs (new_pool a b))))
     \<le> created (pool_getStats (pool_run cs (new_pool a b)))"
  using inv_pool_run [OF inv_new, of cs a b]
  by (simp add: pool_inv_def pool_getStats_def)

text \<open>
  Claim C2, evaluated where the code departs from it. A connection is acquired, released
  and then released immediately (which is what cancels the pending close): \<open>getStats\<close>
  shows created 1, released 1, active 0 after the release and created 1, released 2,
  active 0 after the immediate release, so created minus released is no longer active.
\<close>

theorem released_counted_twice:
  "(case acquire True ''--'' () (new_pool None None) of
      Inl e \<Rightarrow> None
    | Inr (pc, p1) \<Rightarrow>
        Some (pool_getStats (fst (release pc p1)),
              pool_getStats (fst (releaseImmediate pc (fst (release pc p1)))))) =
   Some (\<lparr>created = 1, released = 1, active = 0, stat_pendingClose = 1, stat_configCacheSize = 1\<rparr>,
         \<lparr>created = 1, released = 2, active = 0, stat_pendingClose = 0, stat_configCacheSize = 1\<rparr>)"
  by (simp add: acquire_def release_def releaseImmediate_def new_pool_def pool_getStats_def Let_def)


end
